theory Spec2Isabelle
  imports Complex_Main "HOL-Library.AList"
begin

section \<open>Raw input, validated values and error reports\<close>

text \<open>
  \<^verbatim>\<open>models.py\<close> declares seventeen pydantic models and two string enumerations. The
  declarations are data: each class is a list of fields, each field a type with its
  constraints, an optional alias and an optional default. The behaviour the
  specification describes (construction from a raw mapping, the error report,
  serialisation) is what pydantic does with these declarations, so the embedding has two
  layers: the declarations, transcribed class by class from the source, and the
  validation of a raw value against a declaration.

  A raw value is a Python object as a decoded payload holds it. A member of a
  \<^verbatim>\<open>(str, Enum)\<close> class is a \<^verbatim>\<open>str\<close> and compares equal to its value, so on the input side
  it is the string \<open>RStr\<close> of its value. A \<^verbatim>\<open>float\<close> is the rational number it denotes (not
  a number and the infinities are outside the embedding); \<^verbatim>\<open>datetime\<close> and \<^verbatim>\<open>date\<close>
  objects are identified by an integer (microseconds, days).
\<close>

datatype raw =
    RNone
  | RBool bool
  | RInt int
  | RFloat rat
  | RStr string
  | RDatetime int
  | RDate int
  | RList "raw list"
  | RDict "(string \<times> raw) list"

text \<open>
  A validated value. A model instance carries its class and its field values under the
  field names, in declaration order; two instances are equal when both agree.
\<close>

datatype val =
    VNone
  | VInt int
  | VFloat rat
  | VStr string
  | VEnum string string
  | VDatetime int
  | VDate int
  | VList "val list"
  | VModel string "(string \<times> val) list"

text \<open>
  One entry of a validation error: where (the path of keys and indices from the value
  that was validated) and what (pydantic's error type).
\<close>

datatype loc_item = Key string | Idx nat

datatype errtype =
    Missing
  | String_Type | String_Too_Short | String_Too_Long
  | Int_Type | Int_Parsing | Int_From_Float
  | Float_Type | Float_Parsing
  | Greater_Than_Equal | Less_Than_Equal
  | Enum
  | Datetime_Type | Datetime_Parsing | Date_Type | Date_Parsing
  | List_Type
  | Model_Type

datatype err = Err (loc: "loc_item list") (etype: errtype)

text \<open>
  The specification's names for the kinds of failure (its section 7). A failure below a
  field or a sequence element is reported with the path to it: that path is what the
  specification calls the nesting of a failure.
\<close>

datatype category =
  MissingField | TypeMismatch | ConstraintViolation | InvalidEnumValue | InvalidTemporal

fun taxonomy :: "errtype \<Rightarrow> category" where
  "taxonomy Missing = MissingField"
| "taxonomy String_Too_Short = ConstraintViolation"
| "taxonomy String_Too_Long = ConstraintViolation"
| "taxonomy Greater_Than_Equal = ConstraintViolation"
| "taxonomy Less_Than_Equal = ConstraintViolation"
| "taxonomy Enum = InvalidEnumValue"
| "taxonomy Datetime_Type = InvalidTemporal"
| "taxonomy Datetime_Parsing = InvalidTemporal"
| "taxonomy Date_Type = InvalidTemporal"
| "taxonomy Date_Parsing = InvalidTemporal"
| "taxonomy _ = TypeMismatch"

definition under :: "loc_item \<Rightarrow> err \<Rightarrow> err" where
  "under i e = Err (i # loc e) (etype e)"

section \<open>Declarations\<close>

text \<open>
  What a field does when its key is absent: \<open>Required\<close> (no default),
  \<^verbatim>\<open>default=None\<close>, or \<^verbatim>\<open>default_factory=list\<close>.
\<close>

datatype dflt = Required | Default_None | Default_Factory_List

text \<open>
  The types the source uses: \<^verbatim>\<open>str\<close> with \<^verbatim>\<open>min_length\<close> and \<^verbatim>\<open>max_length\<close>, \<^verbatim>\<open>int\<close> and
  \<^verbatim>\<open>float\<close> with \<^verbatim>\<open>ge\<close> and \<^verbatim>\<open>le\<close>, a string enumeration (class name and member
  values), \<^verbatim>\<open>datetime\<close>, \<^verbatim>\<open>date\<close>, \<^verbatim>\<open>T | None\<close>, \<^verbatim>\<open>List[T]\<close>, and a model (class name and
  fields). A field has a name, an alias if one is declared, a type and a default.
\<close>

datatype ftype =
    TStr "nat option" "nat option"
  | TInt "int option" "int option"
  | TFloat "rat option" "rat option"
  | TEnum string "string list"
  | TDatetime
  | TDate
  | TNullable ftype
  | TList ftype
  | TModel string "field list"
and field = Field (fname: string) (falias: "string option") (ftyp: ftype) (fdefault: dflt)

text \<open>The key a field is read from and written to: its alias if it has one.\<close>

definition wire :: "string \<Rightarrow> string option \<Rightarrow> string" where
  "wire n a = (case a of Some k \<Rightarrow> k | None \<Rightarrow> n)"

definition fwire :: "field \<Rightarrow> string" where
  "fwire f = wire (fname f) (falias f)"

definition fields_of :: "ftype \<Rightarrow> field list" where
  "fields_of t = (case t of TModel c fs \<Rightarrow> fs | _ \<Rightarrow> [])"

section \<open>Validation\<close>

text \<open>
  Pydantic validates in lax mode: an input that is not of the field's type may still be
  converted (a numeric string to a number, ISO 8601 text or a Unix timestamp to a
  \<^verbatim>\<open>datetime\<close>, and so on). These conversions are library code, not part of the
  repository; validation takes them as a parameter, and every theorem below holds for
  all of them.
\<close>

record lax =
  int_of :: "raw \<Rightarrow> errtype + int"
  float_of :: "raw \<Rightarrow> errtype + rat"
  datetime_of :: "raw \<Rightarrow> errtype + int"
  date_of :: "raw \<Rightarrow> errtype + int"

definition no_conversion :: lax where
  "no_conversion = \<lparr> int_of = (\<lambda>r. Inl Int_Type), float_of = (\<lambda>r. Inl Float_Type),
     datetime_of = (\<lambda>r. Inl Datetime_Type), date_of = (\<lambda>r. Inl Date_Type) \<rparr>"

definition below :: "'a::linorder option \<Rightarrow> 'a \<Rightarrow> bool" where
  "below bound x = (case bound of Some b \<Rightarrow> x < b | None \<Rightarrow> False)"

definition above :: "'a::linorder option \<Rightarrow> 'a \<Rightarrow> bool" where
  "above bound x = (case bound of Some b \<Rightarrow> b < x | None \<Rightarrow> False)"

definition str_validator :: "nat option \<Rightarrow> nat option \<Rightarrow> raw \<Rightarrow> errtype + val" where
  "str_validator min_length max_length r =
     (case r of
        RStr s \<Rightarrow>
          if below min_length (length s) then Inl String_Too_Short
          else if above max_length (length s) then Inl String_Too_Long
          else Inr (VStr s)
      | _ \<Rightarrow> Inl String_Type)"

definition int_validator :: "lax \<Rightarrow> int option \<Rightarrow> int option \<Rightarrow> raw \<Rightarrow> errtype + val" where
  "int_validator L ge le r =
     (case (case r of RInt i \<Rightarrow> Inr i | _ \<Rightarrow> int_of L r) of
        Inl e \<Rightarrow> Inl e
      | Inr i \<Rightarrow>
          if above le i then Inl Less_Than_Equal
          else if below ge i then Inl Greater_Than_Equal
          else Inr (VInt i))"

text \<open>
  A \<^verbatim>\<open>float\<close> field accepts an \<^verbatim>\<open>int\<close> and converts it. Up to \<open>2 ^ 53\<close> in magnitude every
  \<^verbatim>\<open>int\<close> is a double and the conversion is exact; a larger one is rounded to the nearest
  double, or refused when it is outside the range of a double. What happens to a larger
  one is left to the conversions taken as a parameter.
\<close>

definition float_validator :: "lax \<Rightarrow> rat option \<Rightarrow> rat option \<Rightarrow> raw \<Rightarrow> errtype + val" where
  "float_validator L ge le r =
     (case (case r of
              RFloat x \<Rightarrow> Inr x
            | RInt i \<Rightarrow> if \<bar>i\<bar> \<le> 2 ^ 53 then Inr (of_int i) else float_of L r
            | _ \<Rightarrow> float_of L r) of
        Inl e \<Rightarrow> Inl e
      | Inr x \<Rightarrow>
          if above le x then Inl Less_Than_Equal
          else if below ge x then Inl Greater_Than_Equal
          else Inr (VFloat x))"

definition enum_validator :: "string \<Rightarrow> string list \<Rightarrow> raw \<Rightarrow> errtype + val" where
  "enum_validator c members r =
     (case r of
        RStr s \<Rightarrow> if s \<in> set members then Inr (VEnum c s) else Inl Enum
      | _ \<Rightarrow> Inl Enum)"

definition datetime_validator :: "lax \<Rightarrow> raw \<Rightarrow> errtype + val" where
  "datetime_validator L r =
     (case r of
        RDatetime t \<Rightarrow> Inr (VDatetime t)
      | _ \<Rightarrow> (case datetime_of L r of Inl e \<Rightarrow> Inl e | Inr t \<Rightarrow> Inr (VDatetime t)))"

definition date_validator :: "lax \<Rightarrow> raw \<Rightarrow> errtype + val" where
  "date_validator L r =
     (case r of
        RDate d \<Rightarrow> Inr (VDate d)
      | _ \<Rightarrow> (case date_of L r of Inl e \<Rightarrow> Inl e | Inr d \<Rightarrow> Inr (VDate d)))"

definition leaf :: "errtype + val \<Rightarrow> err list + val" where
  "leaf res = (case res of Inl e \<Rightarrow> Inl [Err [] e] | Inr v \<Rightarrow> Inr v)"

text \<open>
  Validation of a raw value against a type. A model reads each declared field from the
  mapping under its wire key, ignores every other key, and goes through all its fields
  whatever the earlier ones gave: the errors of all fields are reported together, each
  under the field's key. A list does the same with its elements, under their indices.
  An absent key takes the field's default, unvalidated, or is the error \<open>Missing\<close>.
\<close>

fun validate :: "lax \<Rightarrow> ftype \<Rightarrow> raw \<Rightarrow> err list + val"
and validate_items :: "lax \<Rightarrow> ftype \<Rightarrow> raw list \<Rightarrow> nat \<Rightarrow> err list \<times> val list"
and validate_field :: "lax \<Rightarrow> field \<Rightarrow> (string \<times> raw) list \<Rightarrow> err list + val"
and validate_fields ::
  "lax \<Rightarrow> field list \<Rightarrow> (string \<times> raw) list \<Rightarrow> err list \<times> (string \<times> val) list"
where
  "validate L (TStr min_length max_length) r = leaf (str_validator min_length max_length r)"
| "validate L (TInt ge le) r = leaf (int_validator L ge le r)"
| "validate L (TFloat ge le) r = leaf (float_validator L ge le r)"
| "validate L (TEnum c members) r = leaf (enum_validator c members r)"
| "validate L TDatetime r = leaf (datetime_validator L r)"
| "validate L TDate r = leaf (date_validator L r)"
| "validate L (TNullable t) r = (case r of RNone \<Rightarrow> Inr VNone | _ \<Rightarrow> validate L t r)"
| "validate L (TList t) r =
     (case r of
        RList xs \<Rightarrow>
          (case validate_items L t xs 0 of
             ([], vs) \<Rightarrow> Inr (VList vs)
           | (es, vs) \<Rightarrow> Inl es)
      | _ \<Rightarrow> Inl [Err [] List_Type])"
| "validate L (TModel c fs) r =
     (case r of
        RDict m \<Rightarrow>
          (case validate_fields L fs m of
             ([], kvs) \<Rightarrow> Inr (VModel c kvs)
           | (es, kvs) \<Rightarrow> Inl es)
      | _ \<Rightarrow> Inl [Err [] Model_Type])"
| "validate_items L t [] i = ([], [])"
| "validate_items L t (x # xs) i =
     (case validate_items L t xs (Suc i) of
        (es, vs) \<Rightarrow>
          (case validate L t x of
             Inl e \<Rightarrow> (map (under (Idx i)) e @ es, vs)
           | Inr v \<Rightarrow> (es, v # vs)))"
| "validate_field L (Field n a t d) m =
     (case map_of m (wire n a) of
        None \<Rightarrow>
          (case d of
             Required \<Rightarrow> Inl [Err [Key (wire n a)] Missing]
           | Default_None \<Rightarrow> Inr VNone
           | Default_Factory_List \<Rightarrow> Inr (VList []))
      | Some r \<Rightarrow>
          (case validate L t r of
             Inl e \<Rightarrow> Inl (map (under (Key (wire n a))) e)
           | Inr v \<Rightarrow> Inr v))"
| "validate_fields L [] m = ([], [])"
| "validate_fields L (f # fs) m =
     (case validate_fields L fs m of
        (es, kvs) \<Rightarrow>
          (case validate_field L f m of
             Inl e \<Rightarrow> (e @ es, kvs)
           | Inr v \<Rightarrow> (es, (fname f, v) # kvs)))"

text \<open>The construction entry point of a class: \<^verbatim>\<open>C(**m)\<close>, \<^verbatim>\<open>C.model_validate(m)\<close>.\<close>

definition construct :: "lax \<Rightarrow> ftype \<Rightarrow> (string \<times> raw) list \<Rightarrow> err list + val" where
  "construct L C m = validate L C (RDict m)"

section \<open>The classes of \<^verbatim>\<open>models.py\<close>\<close>

text \<open>Each definition follows its class field by field, in the order of the source.\<close>

definition OrderModel :: ftype where
  "OrderModel = TModel ''OrderModel''
     [Field ''orderId'' None (TStr (Some 5) None) Required,
      Field ''customerId'' None (TStr (Some 5) None) Required,
      Field ''customerName'' None (TStr (Some 5) None) Required]"

definition OrderStatus :: ftype where
  "OrderStatus = TEnum ''OrderStatus''
     [''delivered'', ''cancelled'', ''pending'', ''preparing'', ''out_for_delivery'']"

definition Restaurant :: ftype where
  "Restaurant = TModel ''Restaurant''
     [Field ''restaurantId'' (Some ''restaurantId'') (TNullable (TStr None None)) Default_None,
      Field ''name'' None (TStr None None) Required,
      Field ''location'' None (TStr None None) Required,
      Field ''cuisine'' None (TNullable (TStr None None)) Default_None,
      Field ''rating'' None (TFloat (Some 0) (Some 5)) Required,
      Field ''deliveryTime'' None (TStr None None) Required]"

definition Item :: ftype where
  "Item = TModel ''Item''
     [Field ''name'' None (TStr None None) Required,
      Field ''quantity'' None (TInt (Some 1) None) Required,
      Field ''price'' None (TFloat (Some 0) None) Required,
      Field ''customizations'' None (TList (TStr None None)) Default_Factory_List]"

definition Pricing :: ftype where
  "Pricing = TModel ''Pricing''
     [Field ''itemTotal'' None (TFloat (Some 0) None) Required,
      Field ''deliveryFee'' None (TFloat (Some 0) None) Required,
      Field ''platformFee'' None (TFloat (Some 0) None) Required,
      Field ''gst'' None (TFloat (Some 0) None) Required,
      Field ''discount'' None (TFloat (Some 0) None) Required,
      Field ''totalAmount'' None (TFloat (Some 0) None) Required]"

definition Payment :: ftype where
  "Payment = TModel ''Payment''
     [Field ''method'' None (TStr None None) Required,
      Field ''transactionId'' (Some ''transactionId'') (TStr None None) Required,
      Field ''status'' None (TStr None None) Required]"

definition DeliveryAddress :: ftype where
  "DeliveryAddress = TModel ''DeliveryAddress''
     [Field ''label'' None (TStr None None) Required,
      Field ''address'' None (TStr None None) Required,
      Field ''city'' None (TStr None None) Required,
      Field ''pincode'' None (TStr (Some 6) (Some 6)) Required]"

definition DeliveryPartner :: ftype where
  "DeliveryPartner = TModel ''DeliveryPartner''
     [Field ''name'' None (TStr None None) Required,
      Field ''rating'' None (TFloat (Some 0) (Some 5)) Required,
      Field ''phone'' None (TStr None None) Required]"

definition Timeline :: ftype where
  "Timeline = TModel ''Timeline''
     [Field ''orderPlaced'' (Some ''orderPlaced'') TDatetime Required,
      Field ''restaurantAccepted'' (Some ''restaurantAccepted'') TDatetime Required,
      Field ''foodReady'' (Some ''foodReady'') TDatetime Required,
      Field ''outForDelivery'' (Some ''outForDelivery'') TDatetime Required,
      Field ''delivered'' (Some ''delivered'') TDatetime Required]"

definition Ratings :: ftype where
  "Ratings = TModel ''Ratings''
     [Field ''food'' None (TInt (Some 1) (Some 5)) Required,
      Field ''delivery'' None (TInt (Some 1) (Some 5)) Required,
      Field ''review'' None (TStr None None) Required]"

definition Order :: ftype where
  "Order = TModel ''Order''
     [Field ''orderId'' (Some ''orderId'') (TStr None None) Required,
      Field ''customerId'' (Some ''customerId'') (TStr None None) Required,
      Field ''customerName'' (Some ''customerName'') (TStr None None) Required,
      Field ''orderDate'' (Some ''orderDate'') TDatetime Required,
      Field ''status'' None OrderStatus Required,
      Field ''restaurant'' None Restaurant Required,
      Field ''items'' None (TList Item) Required,
      Field ''pricing'' None Pricing Required,
      Field ''payment'' None Payment Required,
      Field ''deliveryAddress'' None DeliveryAddress Required,
      Field ''deliveryPartner'' None DeliveryPartner Required,
      Field ''timeline'' None Timeline Required,
      Field ''ratings'' None Ratings Required]"

definition SpiceLevel :: ftype where
  "SpiceLevel = TEnum ''SpiceLevel'' [''Mild'', ''Medium'', ''Hot'']"

definition RecentOrder :: ftype where
  "RecentOrder = TModel ''RecentOrder''
     [Field ''orderId'' (Some ''orderId'') (TStr None None) Required,
      Field ''orderDate'' (Some ''orderDate'') TDatetime Required,
      Field ''status'' None OrderStatus Required,
      Field ''restaurant'' None Restaurant Required,
      Field ''items'' None (TList Item) Required,
      Field ''pricing'' None Pricing Required,
      Field ''payment'' None Payment Required,
      Field ''deliveryAddress'' None DeliveryAddress Required,
      Field ''deliveryPartner'' None DeliveryPartner Required,
      Field ''timeline'' None Timeline Required,
      Field ''ratings'' None Ratings Required]"

definition Profile :: ftype where
  "Profile = TModel ''Profile''
     [Field ''name'' None (TStr None None) Required,
      Field ''email'' None (TStr None None) Required,
      Field ''phone'' None (TStr None None) Required,
      Field ''memberSince'' (Some ''memberSince'') TDate Required]"

definition AccountStats :: ftype where
  "AccountStats = TModel ''AccountStats''
     [Field ''totalOrders'' None (TInt (Some 0) None) Required,
      Field ''lifetimeValue'' None (TFloat (Some 0) None) Required,
      Field ''averageOrderValue'' None (TFloat (Some 0) None) Required,
      Field ''favoriteRestaurants'' None (TList (TStr None None)) Default_Factory_List,
      Field ''preferredCuisines'' None (TList (TStr None None)) Default_Factory_List,
      Field ''savedAddresses'' None (TInt (Some 0) None) Required]"

definition Preferences :: ftype where
  "Preferences = TModel ''Preferences''
     [Field ''dietaryRestrictions'' None (TList (TStr None None)) Default_Factory_List,
      Field ''favoriteItems'' None (TList (TStr None None)) Default_Factory_List,
      Field ''avoidIngredients'' None (TList (TStr None None)) Default_Factory_List,
      Field ''spiceLevel'' None SpiceLevel Required]"

definition Coupon :: ftype where
  "Coupon = TModel ''Coupon''
     [Field ''code'' None (TStr None None) Required,
      Field ''description'' None (TStr None None) Required,
      Field ''validUntil'' (Some ''validUntil'') TDate Required]"

definition LoyaltyRewards :: ftype where
  "LoyaltyRewards = TModel ''LoyaltyRewards''
     [Field ''currentPoints'' None (TInt (Some 0) None) Required,
      Field ''pointsToNextReward'' None (TInt (Some 0) None) Required,
      Field ''couponsAvailable'' None (TList Coupon) Default_Factory_List]"

definition Customer :: ftype where
  "Customer = TModel ''Customer''
     [Field ''customerId'' (Some ''customerId'') (TStr None None) Required,
      Field ''profile'' None Profile Required,
      Field ''accountStats'' None AccountStats Required,
      Field ''recentOrders'' None (TList RecentOrder) Default_Factory_List,
      Field ''preferences'' None Preferences Required,
      Field ''loyaltyRewards'' None LoyaltyRewards Required]"

text \<open>All record types of the schema.\<close>

definition models :: "ftype list" where
  "models = [OrderModel, Restaurant, Item, Pricing, Payment, DeliveryAddress, DeliveryPartner,
     Timeline, Ratings, Order, RecentOrder, Profile, AccountStats, Preferences, Coupon,
     LoyaltyRewards, Customer]"

section \<open>Serialisation\<close>

text \<open>
  \<^verbatim>\<open>model_dump(by_alias=True)\<close>: a model instance becomes a mapping from the wire key of
  each field to the dumped field value, a list is dumped element by element, and
  everything else is left as the Python object it is (an enumeration member being the
  string of its value). The instance holds its fields in declaration order, so the dump
  walks the declarations and the stored values together. A value that is not of the
  declared type is dumped by its own shape, under the field names.
\<close>

fun dump :: "val \<Rightarrow> raw" where
  "dump VNone = RNone"
| "dump (VInt i) = RInt i"
| "dump (VFloat x) = RFloat x"
| "dump (VStr s) = RStr s"
| "dump (VEnum c s) = RStr s"
| "dump (VDatetime t) = RDatetime t"
| "dump (VDate d) = RDate d"
| "dump (VList vs) = RList (map dump vs)"
| "dump (VModel c kvs) = RDict (map (\<lambda>kv. (fst kv, dump (snd kv))) kvs)"

fun serialize :: "ftype \<Rightarrow> val \<Rightarrow> raw"
and serialize_fields :: "field list \<Rightarrow> (string \<times> val) list \<Rightarrow> (string \<times> raw) list"
where
  "serialize (TNullable t) v = (case v of VNone \<Rightarrow> RNone | _ \<Rightarrow> serialize t v)"
| "serialize (TList t) v = (case v of VList vs \<Rightarrow> RList (map (serialize t) vs) | _ \<Rightarrow> dump v)"
| "serialize (TModel c fs) v =
     (case v of VModel c' kvs \<Rightarrow> RDict (serialize_fields fs kvs) | _ \<Rightarrow> dump v)"
| "serialize t v = dump v"
| "serialize_fields (Field n a t d # fs) ((k, v) # kvs) =
     (wire n a, serialize t v) # serialize_fields fs kvs"
| "serialize_fields fs kvs = []"

definition model_dump :: "ftype \<Rightarrow> val \<Rightarrow> (string \<times> raw) list" where
  "model_dump C x = (case serialize C x of RDict m \<Rightarrow> m | _ \<Rightarrow> [])"

section \<open>Valid instances\<close>

text \<open>
  A value is a valid instance of a type when it has the type's shape and meets its
  constraints; for a model, when it is of that class and holds, in declaration order, a
  valid value for each field.
\<close>

fun conforms :: "ftype \<Rightarrow> val \<Rightarrow> bool"
and conforms_fields :: "field list \<Rightarrow> (string \<times> val) list \<Rightarrow> bool"
where
  "conforms (TStr min_length max_length) v =
     (case v of
        VStr s \<Rightarrow> \<not> below min_length (length s) \<and> \<not> above max_length (length s)
      | _ \<Rightarrow> False)"
| "conforms (TInt ge le) v = (case v of VInt i \<Rightarrow> \<not> above le i \<and> \<not> below ge i | _ \<Rightarrow> False)"
| "conforms (TFloat ge le) v = (case v of VFloat x \<Rightarrow> \<not> above le x \<and> \<not> below ge x | _ \<Rightarrow> False)"
| "conforms (TEnum c members) v = (case v of VEnum c' s \<Rightarrow> c' = c \<and> s \<in> set members | _ \<Rightarrow> False)"
| "conforms TDatetime v = (case v of VDatetime t \<Rightarrow> True | _ \<Rightarrow> False)"
| "conforms TDate v = (case v of VDate d \<Rightarrow> True | _ \<Rightarrow> False)"
| "conforms (TNullable t) v = (case v of VNone \<Rightarrow> True | _ \<Rightarrow> conforms t v)"
| "conforms (TList t) v = (case v of VList vs \<Rightarrow> list_all (conforms t) vs | _ \<Rightarrow> False)"
| "conforms (TModel c fs) v =
     (case v of VModel c' kvs \<Rightarrow> c' = c \<and> conforms_fields fs kvs | _ \<Rightarrow> False)"
| "conforms_fields [] kvs = (kvs = [])"
| "conforms_fields (Field n a t d # fs) kvs =
     (case kvs of (k, v) # kvs' \<Rightarrow> k = n \<and> conforms t v \<and> conforms_fields fs kvs' | [] \<Rightarrow> False)"

text \<open>
  Declarations are well formed when no two fields of a class share a wire key and every
  default is a valid value of its field's type (pydantic does not validate defaults).
\<close>

fun default_ok :: "ftype \<Rightarrow> dflt \<Rightarrow> bool" where
  "default_ok t Required = True"
| "default_ok t Default_None = conforms t VNone"
| "default_ok t Default_Factory_List = conforms t (VList [])"

fun wf :: "ftype \<Rightarrow> bool"
and wf_field :: "field \<Rightarrow> bool"
where
  "wf (TNullable t) = wf t"
| "wf (TList t) = wf t"
| "wf (TModel c fs) = (distinct (map fwire fs) \<and> list_all wf_field fs)"
| "wf t = True"
| "wf_field (Field n a t d) = (wf t \<and> default_ok t d)"

text \<open>Attribute access on an instance, and the errors one field contributes.\<close>

definition attr :: "val \<Rightarrow> string \<Rightarrow> val option" where
  "attr x n = (case x of VModel c kvs \<Rightarrow> map_of kvs n | _ \<Rightarrow> None)"

definition field_errors :: "lax \<Rightarrow> field \<Rightarrow> (string \<times> raw) list \<Rightarrow> err list" where
  "field_errors L f m = (case validate_field L f m of Inl e \<Rightarrow> e | Inr v \<Rightarrow> [])"

text \<open>
  The violations of a raw value against a declaration, by location. This definition does
  not come from the validator: it says what it means for the input to be invalid at one
  place, whatever the rest of the input holds. The path leads through the keys of
  mappings and the indices of lists to one value; that value is a violation when it is
  not of the declared type or breaks the declared constraint, and an absent key is one
  when the field is required. \<open>violation L t r p\<close> is the error type of the violation at
  path \<open>p\<close> of \<open>r\<close> against \<open>t\<close>, if there is one.
\<close>

definition failure :: "errtype + val \<Rightarrow> errtype option" where
  "failure res = (case res of Inl e \<Rightarrow> Some e | Inr v \<Rightarrow> None)"

fun violation :: "lax \<Rightarrow> ftype \<Rightarrow> raw \<Rightarrow> loc_item list \<Rightarrow> errtype option"
and violation_field ::
  "lax \<Rightarrow> field list \<Rightarrow> (string \<times> raw) list \<Rightarrow> string \<Rightarrow> loc_item list \<Rightarrow> errtype option"
where
  "violation L (TStr min_length max_length) r p =
     (if p = [] then failure (str_validator min_length max_length r) else None)"
| "violation L (TInt ge le) r p = (if p = [] then failure (int_validator L ge le r) else None)"
| "violation L (TFloat ge le) r p = (if p = [] then failure (float_validator L ge le r) else None)"
| "violation L (TEnum c members) r p =
     (if p = [] then failure (enum_validator c members r) else None)"
| "violation L TDatetime r p = (if p = [] then failure (datetime_validator L r) else None)"
| "violation L TDate r p = (if p = [] then failure (date_validator L r) else None)"
| "violation L (TNullable t) r p = (case r of RNone \<Rightarrow> None | _ \<Rightarrow> violation L t r p)"
| "violation L (TList t) r p =
     (case r of
        RList xs \<Rightarrow>
          (case p of
             Idx i # p' \<Rightarrow> if i < length xs then violation L t (xs ! i) p' else None
           | _ \<Rightarrow> None)
      | _ \<Rightarrow> if p = [] then Some List_Type else None)"
| "violation L (TModel c fs) r p =
     (case r of
        RDict m \<Rightarrow> (case p of Key k # p' \<Rightarrow> violation_field L fs m k p' | _ \<Rightarrow> None)
      | _ \<Rightarrow> if p = [] then Some Model_Type else None)"
| "violation_field L [] m k p = None"
| "violation_field L (Field n a t d # fs) m k p =
     (if wire n a = k
      then (case map_of m k of
              None \<Rightarrow> if p = [] \<and> d = Required then Some Missing else None
            | Some r \<Rightarrow> violation L t r p)
      else violation_field L fs m k p)"

text \<open>The fields of a class that hold an ordered sequence.\<close>

definition sequence_fields :: "ftype \<Rightarrow> field list" where
  "sequence_fields C = filter (\<lambda>f. case ftyp f of TList t \<Rightarrow> True | _ \<Rightarrow> False) (fields_of C)"

section \<open>A sample order\<close>

text \<open>A raw mapping from which an \<open>Order\<close> is constructed, used for the concrete instances.\<close>

definition sample_restaurant :: "(string \<times> raw) list" where
  "sample_restaurant = [(''name'', RStr ''Spice Hub''), (''location'', RStr ''Chennai''),
     (''rating'', RFloat (9 / 2)), (''deliveryTime'', RStr ''30 min'')]"

definition sample_item :: "(string \<times> raw) list" where
  "sample_item = [(''name'', RStr ''Dosa''), (''quantity'', RInt 2), (''price'', RFloat 60)]"

definition sample_pricing :: "(string \<times> raw) list" where
  "sample_pricing = [(''itemTotal'', RFloat 120), (''deliveryFee'', RFloat 20),
     (''platformFee'', RFloat 5), (''gst'', RFloat 6), (''discount'', RInt 0),
     (''totalAmount'', RFloat 151)]"

definition sample_payment :: "(string \<times> raw) list" where
  "sample_payment = [(''method'', RStr ''UPI''), (''transactionId'', RStr ''TXN1''),
     (''status'', RStr ''paid'')]"

definition sample_address :: "(string \<times> raw) list" where
  "sample_address = [(''label'', RStr ''Home''), (''address'', RStr ''1 Main St''),
     (''city'', RStr ''Chennai''), (''pincode'', RStr ''600001'')]"

definition sample_partner :: "(string \<times> raw) list" where
  "sample_partner = [(''name'', RStr ''Ravi''), (''rating'', RInt 5), (''phone'', RStr ''99'')]"

definition sample_timeline :: "(string \<times> raw) list" where
  "sample_timeline = [(''orderPlaced'', RDatetime 1), (''restaurantAccepted'', RDatetime 2),
     (''foodReady'', RDatetime 3), (''outForDelivery'', RDatetime 4), (''delivered'', RDatetime 5)]"

definition sample_ratings :: "(string \<times> raw) list" where
  "sample_ratings = [(''food'', RInt 5), (''delivery'', RInt 4), (''review'', RStr ''good'')]"

definition sample_order :: "(string \<times> raw) list" where
  "sample_order = [(''orderId'', RStr ''ORD0001''), (''customerId'', RStr ''CUST001''),
     (''customerName'', RStr ''Anita''), (''orderDate'', RDatetime 1),
     (''status'', RStr ''delivered''), (''restaurant'', RDict sample_restaurant),
     (''items'', RList [RDict sample_item]), (''pricing'', RDict sample_pricing),
     (''payment'', RDict sample_payment), (''deliveryAddress'', RDict sample_address),
     (''deliveryPartner'', RDict sample_partner), (''timeline'', RDict sample_timeline),
     (''ratings'', RDict sample_ratings)]"

text \<open>Two orders with two violations under one field.\<close>

definition bad_restaurant_order :: "(string \<times> raw) list" where
  "bad_restaurant_order = AList.update ''restaurant''
     (RDict (AList.update ''name'' (RInt 1) (AList.update ''rating'' (RInt 9) sample_restaurant)))
     sample_order"

definition bad_items_order :: "(string \<times> raw) list" where
  "bad_items_order = AList.update ''items''
     (RList [RDict (AList.update ''price'' (RInt (- 1)) sample_item),
             RDict (AList.update ''price'' (RFloat (- 1)) sample_item)])
     sample_order"

section \<open>Properties of validation\<close>

lemmas class_defs = OrderModel_def OrderStatus_def Restaurant_def Item_def Pricing_def Payment_def
  DeliveryAddress_def DeliveryPartner_def Timeline_def Ratings_def Order_def SpiceLevel_def
  RecentOrder_def Profile_def AccountStats_def Preferences_def Coupon_def LoyaltyRewards_def
  Customer_def

lemmas sample_defs = sample_restaurant_def sample_item_def sample_pricing_def sample_payment_def
  sample_address_def sample_partner_def sample_timeline_def sample_ratings_def sample_order_def

lemma leaf_Inl_nonempty: "leaf res = Inl es \<Longrightarrow> es \<noteq> []"
  by (auto simp: leaf_def split: sum.splits)

lemma validate_Inl_nonempty_gen:
  "validate L t r = Inl es \<Longrightarrow> es \<noteq> []"
  "validate L (ftyp f) r = Inl es \<Longrightarrow> es \<noteq> []"
proof (induction t and f arbitrary: r and r)
  case (TNullable t)
  then show ?case by (cases r) auto
next
  case (TList t)
  then show ?case by (cases r) (auto split: prod.splits list.splits)
next
  case (TModel c fs)
  then show ?case by (cases r) (auto split: prod.splits list.splits)
qed (auto dest: leaf_Inl_nonempty)

lemmas validate_Inl_nonempty = validate_Inl_nonempty_gen(1)

lemma validate_field_Inl_nonempty: "validate_field L f m = Inl es \<Longrightarrow> es \<noteq> []"
  by (cases f) (auto split: option.splits dflt.splits sum.splits dest: validate_Inl_nonempty)

lemma fst_validate_fields:
  "fst (validate_fields L fs m) = concat (map (\<lambda>f. field_errors L f m) fs)"
  by (induction fs) (auto simp: field_errors_def split: prod.splits sum.splits)

lemma snd_validate_fields:
  "snd (validate_fields L fs m) =
   List.map_filter (\<lambda>f. case validate_field L f m of Inl e \<Rightarrow> None | Inr v \<Rightarrow> Some (fname f, v)) fs"
  by (induction fs) (auto simp: List.map_filter_simps split: prod.splits sum.splits)

lemma validate_fields_agree:
  "(\<And>f. f \<in> set fs \<Longrightarrow> map_of m (fwire f) = map_of m' (fwire f)) \<Longrightarrow>
   validate_fields L fs m = validate_fields L fs m'"
proof (induction fs)
  case Nil
  then show ?case by simp
next
  case (Cons f fs)
  obtain n a t d where f: "f = Field n a t d" by (cases f)
  have "map_of m (wire n a) = map_of m' (wire n a)"
    using Cons.prems [of f] by (simp add: f fwire_def)
  then have "validate_field L f m = validate_field L f m'"
    by (simp add: f)
  moreover have "validate_fields L fs m = validate_fields L fs m'"
    using Cons by simp
  ultimately show ?case by simp
qed

lemma dump_RNone: "dump v = RNone \<Longrightarrow> v = VNone"
  by (cases v) auto

lemma serialize_RNone_gen:
  "serialize t v = RNone \<Longrightarrow> v = VNone"
  "serialize (ftyp f) v = RNone \<Longrightarrow> v = VNone"
proof (induction t and f arbitrary: v and v)
  case (TNullable t)
  then show ?case by (cases v) auto
next
  case (TList t)
  then show ?case by (cases v) auto
next
  case (TModel c fs)
  then show ?case by (cases v) auto
next
  case (Field n a t d)
  then show ?case by simp
qed (auto dest: dump_RNone)

lemmas serialize_RNone = serialize_RNone_gen(1)

lemma items_roundtrip:
  assumes "\<And>v. conforms t v \<Longrightarrow> validate L t (serialize t v) = Inr v"
  shows "list_all (conforms t) vs \<Longrightarrow> validate_items L t (map (serialize t) vs) i = ([], vs)"
  by (induction vs arbitrary: i) (simp_all add: assms)

lemma fields_roundtrip:
  assumes "\<And>f v. f \<in> set fs \<Longrightarrow> wf_field f \<Longrightarrow> conforms (ftyp f) v \<Longrightarrow>
             validate L (ftyp f) (serialize (ftyp f) v) = Inr v"
  shows "list_all wf_field fs \<Longrightarrow> distinct (map fwire fs) \<Longrightarrow> conforms_fields fs kvs \<Longrightarrow>
         fwire ` set fs \<inter> fst ` set pre = {} \<Longrightarrow>
         validate_fields L fs (pre @ serialize_fields fs kvs) = ([], kvs)"
  using assms
proof (induction fs arbitrary: kvs pre)
  case Nil
  then show ?case by simp
next
  case (Cons f fs)
  obtain n a t d where f: "f = Field n a t d" by (cases f)
  from Cons.prems(3) obtain v kvs' where kvs: "kvs = (n, v) # kvs'"
    and cv: "conforms t v" and cf: "conforms_fields fs kvs'"
    by (auto simp: f split: list.splits)
  let ?x = "(wire n a, serialize t v)"
  let ?m = "pre @ serialize_fields (f # fs) kvs"
  have m: "?m = (pre @ [?x]) @ serialize_fields fs kvs'"
    by (simp add: f kvs)
  have disj: "fwire ` set fs \<inter> fst ` set (pre @ [?x]) = {}"
    using Cons.prems(2,4) by (auto simp: f fwire_def)
  have rest: "validate_fields L fs ?m = ([], kvs')"
    unfolding m
    using Cons.prems(1,2) cf disj Cons.prems(5)
    by (intro Cons.IH) auto
  have notin: "wire n a \<notin> fst ` set pre"
    using Cons.prems(4) by (auto simp: f fwire_def)
  then have "map_of pre (wire n a) = None"
    by (simp add: map_of_eq_None_iff)
  then have look: "map_of ?m (wire n a) = Some (serialize t v)"
    by (simp add: f kvs map_add_def)
  have "validate L t (serialize t v) = Inr v"
    using Cons.prems(5) [of f v] Cons.prems(1) cv by (simp add: f)
  with look have "validate_field L f ?m = Inr v"
    by (simp add: f)
  with rest show ?case by (simp add: f kvs)
qed

lemma roundtrip_gen:
  "wf t \<Longrightarrow> conforms t v \<Longrightarrow> validate L t (serialize t v) = Inr v"
  "wf_field f \<Longrightarrow> conforms (ftyp f) v \<Longrightarrow> validate L (ftyp f) (serialize (ftyp f) v) = Inr v"
proof (induction t and f arbitrary: v and v)
  case (TStr lo hi)
  then show ?case by (cases v) (auto simp: leaf_def str_validator_def)
next
  case (TInt ge le)
  then show ?case by (cases v) (auto simp: leaf_def int_validator_def)
next
  case (TFloat ge le)
  then show ?case by (cases v) (auto simp: leaf_def float_validator_def)
next
  case (TEnum c ms)
  then show ?case by (cases v) (auto simp: leaf_def enum_validator_def)
next
  case TDatetime
  then show ?case by (cases v) (auto simp: leaf_def datetime_validator_def)
next
  case TDate
  then show ?case by (cases v) (auto simp: leaf_def date_validator_def)
next
  case (TNullable t)
  show ?case
  proof (cases "v = VNone")
    case True
    then show ?thesis by simp
  next
    case False
    then have c: "conforms t v" using TNullable.prems by (cases v) auto
    have w: "wf t" using TNullable.prems by simp
    have s: "serialize (TNullable t) v = serialize t v" using False by (cases v) auto
    have "serialize t v \<noteq> RNone" using False serialize_RNone by blast
    then have "validate L (TNullable t) (serialize t v) = validate L t (serialize t v)"
      by (cases "serialize t v") auto
    then show ?thesis using TNullable.IH [OF w c] s by simp
  qed
next
  case (TList t)
  from TList.prems obtain vs where v: "v = VList vs" and cs: "list_all (conforms t) vs"
    by (cases v) auto
  have "validate_items L t (map (serialize t) vs) 0 = ([], vs)"
    using TList.IH TList.prems(1) cs by (intro items_roundtrip) auto
  then show ?case by (simp add: v)
next
  case (TModel c fs)
  from TModel.prems obtain kvs where v: "v = VModel c kvs" and cf: "conforms_fields fs kvs"
    by (cases v) auto
  have "validate_fields L fs ([] @ serialize_fields fs kvs) = ([], kvs)"
    using TModel.prems(1) cf TModel.IH by (intro fields_roundtrip) auto
  then show ?case by (simp add: v)
next
  case (Field n a t d)
  then show ?case by simp
qed

lemma items_sound:
  assumes "\<And>x v. validate L t x = Inr v \<Longrightarrow> conforms t v"
  shows "validate_items L t xs i = ([], vs) \<Longrightarrow> list_all (conforms t) vs"
  using assms
  by (induction xs arbitrary: i vs) (auto split: prod.splits sum.splits)

lemma fields_sound:
  assumes "\<And>f r v. f \<in> set fs \<Longrightarrow> wf_field f \<Longrightarrow> validate L (ftyp f) r = Inr v \<Longrightarrow> conforms (ftyp f) v"
  shows "list_all wf_field fs \<Longrightarrow> validate_fields L fs m = ([], kvs) \<Longrightarrow> conforms_fields fs kvs"
  using assms
proof (induction fs arbitrary: kvs)
  case Nil
  then show ?case by simp
next
  case (Cons f fs)
  obtain n a t d where f: "f = Field n a t d" by (cases f)
  from Cons.prems(2) obtain v kvs' where kvs: "kvs = (fname f, v) # kvs'"
    and r: "validate_fields L fs m = ([], kvs')" and vf: "validate_field L f m = Inr v"
    using validate_field_Inl_nonempty [of L f m]
    by (auto split: prod.splits sum.splits)
  have "conforms_fields fs kvs'"
    using Cons.prems(1,3) r by (intro Cons.IH) auto
  moreover have "conforms t v"
    using vf Cons.prems(1) Cons.prems(3) [of f _ v]
    by (auto simp: f split: option.splits dflt.splits sum.splits)
  ultimately show ?case by (simp add: f kvs)
qed

lemma validate_sound_gen:
  "wf t \<Longrightarrow> validate L t r = Inr v \<Longrightarrow> conforms t v"
  "wf_field f \<Longrightarrow> validate L (ftyp f) r = Inr v \<Longrightarrow> conforms (ftyp f) v"
proof (induction t and f arbitrary: r v and r v)
  case (TStr lo hi)
  then show ?case by (cases r) (auto simp: leaf_def str_validator_def split: if_splits)
next
  case (TInt ge le)
  then show ?case by (auto simp: leaf_def int_validator_def split: if_splits sum.splits)
next
  case (TFloat ge le)
  then show ?case by (auto simp: leaf_def float_validator_def split: if_splits sum.splits)
next
  case (TEnum c ms)
  then show ?case by (cases r) (auto simp: leaf_def enum_validator_def split: if_splits)
next
  case TDatetime
  then show ?case by (cases r) (auto simp: leaf_def datetime_validator_def split: sum.splits)
next
  case TDate
  then show ?case by (cases r) (auto simp: leaf_def date_validator_def split: sum.splits)
next
  case (TNullable t)
  then show ?case by (cases r; cases v) auto
next
  case (TList t)
  from TList.prems obtain xs vs where "r = RList xs" "v = VList vs"
    "validate_items L t xs 0 = ([], vs)"
    by (cases r) (auto split: prod.splits list.splits)
  then show ?case using TList.IH TList.prems(1) items_sound [of L t xs 0 vs] by auto
next
  case (TModel c fs)
  from TModel.prems obtain m kvs where "r = RDict m" "v = VModel c kvs"
    "validate_fields L fs m = ([], kvs)"
    by (cases r) (auto split: prod.splits list.splits)
  then show ?case using TModel.IH TModel.prems(1) fields_sound [of fs L m kvs] by auto
next
  case (Field n a t d)
  then show ?case by simp
qed

lemma validate_field_agree:
  "map_of m (fwire f) = map_of m' (fwire f) \<Longrightarrow> validate_field L f m = validate_field L f m'"
  by (cases f) (simp add: fwire_def)

lemma construct_TModel:
  "construct L (TModel c fs) m =
     (case validate_fields L fs m of ([], kvs) \<Rightarrow> Inr (VModel c kvs) | (e # es, kvs) \<Rightarrow> Inl (e # es))"
  by (simp add: construct_def split: prod.splits list.splits)

lemma validate_fields_Inr_iff:
  "validate_fields L fs m = ([], kvs) \<longleftrightarrow>
   list_all2 (\<lambda>f kv. fst kv = fname f \<and> validate_field L f m = Inr (snd kv)) fs kvs"
proof (induction fs arbitrary: kvs)
  case Nil
  then show ?case by auto
next
  case (Cons f fs)
  show ?case
  proof (cases "validate_field L f m")
    case (Inl e)
    then have "e \<noteq> []" by (rule validate_field_Inl_nonempty)
    with Inl show ?thesis by (auto simp: list_all2_Cons1 split: prod.splits)
  next
    case (Inr v)
    then show ?thesis
      by (cases kvs) (auto simp: Cons.IH [symmetric] split: prod.splits)
  qed
qed

lemma construct_Inr_iff:
  "construct L (TModel c fs) m = Inr x \<longleftrightarrow>
   (\<exists>kvs. x = VModel c kvs \<and>
      list_all2 (\<lambda>f kv. fst kv = fname f \<and> validate_field L f m = Inr (snd kv)) fs kvs)"
proof -
  have "construct L (TModel c fs) m = Inr x \<longleftrightarrow>
        (\<exists>kvs. x = VModel c kvs \<and> validate_fields L fs m = ([], kvs))"
    by (auto simp: construct_TModel split: prod.splits list.splits)
  then show ?thesis by (simp add: validate_fields_Inr_iff)
qed

lemma construct_Inl_iff:
  "construct L (TModel c fs) m = Inl es \<longleftrightarrow>
   es \<noteq> [] \<and> es = concat (map (\<lambda>f. field_errors L f m) fs)"
proof -
  have "fst (validate_fields L fs m) = concat (map (\<lambda>f. field_errors L f m) fs)"
    by (rule fst_validate_fields)
  then show ?thesis
    by (cases "validate_fields L fs m") (auto simp: construct_TModel split: list.splits)
qed

lemma construct_agree:
  assumes "\<And>f. f \<in> set fs \<Longrightarrow> map_of m (fwire f) = map_of m' (fwire f)"
  shows "construct L (TModel c fs) m = construct L (TModel c fs) m'"
  using validate_fields_agree [of fs m m' L] assms by (simp add: construct_def)

lemma models_classes: "C \<in> set models \<Longrightarrow> \<exists>c fs. C = TModel c fs"
  by (auto simp: models_def class_defs)

lemma models_wf: "list_all wf models"
  by code_simp

lemma fwire_neq:
  "k \<noteq> fname f \<Longrightarrow> falias f \<noteq> Some k \<Longrightarrow> fwire f \<noteq> k"
  by (cases "falias f") (auto simp: fwire_def wire_def)

lemma construct_field_error:
  assumes "f \<in> set fs" "validate_field L f m = Inl e"
  shows "\<exists>es. construct L (TModel c fs) m = Inl es \<and> set e \<subseteq> set es"
proof -
  let ?es = "concat (map (\<lambda>f. field_errors L f m) fs)"
  have e: "e \<noteq> []" using assms(2) by (rule validate_field_Inl_nonempty)
  have sub: "set e \<subseteq> set ?es"
    using assms by (auto simp: field_errors_def intro!: bexI [of _ f])
  have "set ?es \<noteq> {}" using e sub by (metis set_empty subset_empty)
  then have "?es \<noteq> []" by (simp only: set_empty not_False_eq_True)
  then have "construct L (TModel c fs) m = Inl ?es"
    using construct_Inl_iff [of L c fs m ?es] by (simp only: simp_thms)
  with sub show ?thesis by blast
qed

lemma construct_conforms:
  assumes "C \<in> set models" "construct L C m = Inr x"
  shows "conforms C x"
proof -
  have "wf C" using models_wf assms(1) by (simp add: list_all_iff)
  then show ?thesis using assms(2) validate_sound_gen(1) by (simp add: construct_def)
qed

lemma list_all2_fields_iff:
  "list_all2 (\<lambda>f kv. fst kv = fname f \<and> validate_field L f m = Inr (snd kv)) fs kvs \<longleftrightarrow>
   (\<forall>f \<in> set fs. \<exists>v. validate_field L f m = Inr v) \<and>
   kvs = map (\<lambda>f. (fname f, projr (validate_field L f m))) fs"
proof (induction fs arbitrary: kvs)
  case Nil
  then show ?case by auto
next
  case (Cons f fs)
  show ?case by (cases kvs) (auto simp: Cons.IH)
qed

lemma construct_Inr_values:
  "construct L (TModel c fs) m = Inr x \<longleftrightarrow>
   (\<forall>f \<in> set fs. \<exists>v. validate_field L f m = Inr v) \<and>
   x = VModel c (map (\<lambda>f. (fname f, projr (validate_field L f m))) fs)"
  by (auto simp: construct_Inr_iff list_all2_fields_iff)

lemma map_of_fields:
  "distinct (map fname fs) \<Longrightarrow> f \<in> set fs \<Longrightarrow>
   map_of (map (\<lambda>f. (fname f, g f)) fs) (fname f) = Some (g f)"
  by (induction fs) (auto simp: image_iff)

lemma construct_attr:
  assumes "construct L (TModel c fs) m = Inr x" "f \<in> set fs" "distinct (map fname fs)"
  shows "\<exists>v. validate_field L f m = Inr v \<and> attr x (fname f) = Some v"
proof -
  from assms(1) have all: "\<forall>f \<in> set fs. \<exists>v. validate_field L f m = Inr v"
    and x: "x = VModel c (map (\<lambda>f. (fname f, projr (validate_field L f m))) fs)"
    by (simp_all add: construct_Inr_values)
  from all assms(2) obtain v where v: "validate_field L f m = Inr v" by blast
  have "attr x (fname f) = Some (projr (validate_field L f m))"
    unfolding x attr_def val.case using assms(3,2) by (rule map_of_fields)
  with v show ?thesis by simp
qed

lemma concat_single:
  assumes "f \<in> set fs" "distinct fs" "\<And>g. g \<in> set fs \<Longrightarrow> g \<noteq> f \<Longrightarrow> h g = []"
  shows "concat (map h fs) = h f"
  using assms
proof (induction fs)
  case Nil
  then show ?case by simp
next
  case (Cons a fs)
  show ?case
  proof (cases "a = f")
    case True
    then have "f \<notin> set fs" using Cons.prems(2) by simp
    then have "\<forall>g \<in> set fs. h g = []" using Cons.prems(3) by auto
    then have "concat (map h fs) = []" by simp
    with True show ?thesis by simp
  next
    case False
    then have "f \<in> set fs" using Cons.prems(1) by simp
    moreover have "h a = []" using Cons.prems(3) [of a] False by simp
    ultimately show ?thesis using Cons.IH Cons.prems by simp
  qed
qed

lemma construct_single_error:
  assumes "f \<in> set fs" "distinct fs"
    and "validate_field L f m = Inl e"
    and "\<And>g. g \<in> set fs \<Longrightarrow> g \<noteq> f \<Longrightarrow> \<exists>v. validate_field L g m = Inr v"
  shows "construct L (TModel c fs) m = Inl e"
proof -
  have "concat (map (\<lambda>g. field_errors L g m) fs) = field_errors L f m"
    using assms(1,2)
  proof (rule concat_single)
    fix g assume "g \<in> set fs" "g \<noteq> f"
    then obtain v where "validate_field L g m = Inr v" using assms(4) by blast
    then show "field_errors L g m = []" by (simp add: field_errors_def)
  qed
  moreover have "field_errors L f m = e" using assms(3) by (simp add: field_errors_def)
  moreover have "e \<noteq> []" using assms(3) by (rule validate_field_Inl_nonempty)
  ultimately show ?thesis using construct_Inl_iff [of L c fs m e] by simp
qed

lemma construct_transfer:
  assumes "construct L (TModel c1 fs1) m1 = Inr x1"
    and "distinct (map fname fs1)" "distinct (map fname fs2)"
    and "\<And>f. f \<in> set fs2 \<Longrightarrow>
           (f \<in> set fs1 \<and> map_of m2 (fwire f) = map_of m1 (fwire f)) \<or>
           (\<exists>v. validate_field L f m2 = Inr v)"
  shows "\<exists>x2. construct L (TModel c2 fs2) m2 = Inr x2 \<and>
           (\<forall>f \<in> set fs2. f \<in> set fs1 \<longrightarrow> map_of m2 (fwire f) = map_of m1 (fwire f) \<longrightarrow>
              attr x2 (fname f) = attr x1 (fname f))"
proof -
  from assms(1) have all1: "\<forall>f \<in> set fs1. \<exists>v. validate_field L f m1 = Inr v"
    by (simp add: construct_Inr_values)
  have all2: "\<forall>f \<in> set fs2. \<exists>v. validate_field L f m2 = Inr v"
  proof
    fix f assume f: "f \<in> set fs2"
    from assms(4) [OF f] show "\<exists>v. validate_field L f m2 = Inr v"
    proof
      assume a: "f \<in> set fs1 \<and> map_of m2 (fwire f) = map_of m1 (fwire f)"
      then have "validate_field L f m2 = validate_field L f m1" by (intro validate_field_agree) simp
      with a all1 show ?thesis by simp
    qed
  qed
  let ?x2 = "VModel c2 (map (\<lambda>f. (fname f, projr (validate_field L f m2))) fs2)"
  have c: "construct L (TModel c2 fs2) m2 = Inr ?x2"
    using all2 by (simp add: construct_Inr_values)
  have "attr ?x2 (fname f) = attr x1 (fname f)"
    if f: "f \<in> set fs2" "f \<in> set fs1" and k: "map_of m2 (fwire f) = map_of m1 (fwire f)" for f
  proof -
    have e: "validate_field L f m2 = validate_field L f m1" using k by (rule validate_field_agree)
    from construct_attr [OF assms(1) f(2) assms(2)]
    obtain v where v: "validate_field L f m1 = Inr v" "attr x1 (fname f) = Some v" by blast
    from construct_attr [OF c f(1) assms(3)]
    obtain w where w: "validate_field L f m2 = Inr w" "attr ?x2 (fname f) = Some w" by blast
    from e v w show ?thesis by simp
  qed
  with c show ?thesis by blast
qed

text \<open>A list reports the errors of all its elements, each under its index.\<close>

lemma items_errors:
  "i < length xs \<Longrightarrow> validate L t (xs ! i) = Inl es \<Longrightarrow>
   set (map (under (Idx (k + i))) es) \<subseteq> set (fst (validate_items L t xs k))"
proof (induction xs arbitrary: i k)
  case Nil
  then show ?case by simp
next
  case (Cons x xs)
  show ?case
  proof (cases i)
    case 0
    then show ?thesis using Cons.prems by (auto split: prod.splits)
  next
    case (Suc j)
    then have "set (map (under (Idx (Suc k + j))) es) \<subseteq> set (fst (validate_items L t xs (Suc k)))"
      using Cons.prems by (intro Cons.IH) auto
    then show ?thesis using Suc by (auto split: prod.splits sum.splits)
  qed
qed

lemma validate_TList_errors:
  "validate L (TList t) (RList xs) =
     (case validate_items L t xs 0 of ([], vs) \<Rightarrow> Inr (VList vs) | (e # es, vs) \<Rightarrow> Inl (e # es))"
  by (simp split: prod.splits list.splits)

lemma violation_field_cases:
  "violation_field L fs m k p = Some e \<Longrightarrow>
   \<exists>f \<in> set fs. fwire f = k \<and>
     (case map_of m k of
        None \<Rightarrow> p = [] \<and> fdefault f = Required \<and> e = Missing
      | Some r \<Rightarrow> violation L (ftyp f) r p = Some e)"
proof (induction fs)
  case Nil
  then show ?case by simp
next
  case (Cons f fs)
  obtain n a t d where f: "f = Field n a t d" by (cases f)
  show ?case
  proof (cases "wire n a = k")
    case True
    then show ?thesis using Cons.prems
      by (auto simp: f fwire_def split: option.splits if_splits)
  next
    case False
    then show ?thesis using Cons by (auto simp: f)
  qed
qed

lemma failure_leaf: "failure res = Some e \<Longrightarrow> leaf res = Inl [Err [] e]"
  by (cases res) (auto simp: failure_def leaf_def)

lemma violation_reported_gen:
  "violation L t r p = Some e \<Longrightarrow> \<exists>es. validate L t r = Inl es \<and> Err p e \<in> set es"
  "violation L (ftyp f) r p = Some e \<Longrightarrow> \<exists>es. validate L (ftyp f) r = Inl es \<and> Err p e \<in> set es"
proof (induction t and f arbitrary: r p and r p)
  case (TStr lo hi)
  then show ?case by (auto split: if_splits dest: failure_leaf)
next
  case (TInt ge le)
  then show ?case by (auto split: if_splits dest: failure_leaf)
next
  case (TFloat ge le)
  then show ?case by (auto split: if_splits dest: failure_leaf)
next
  case (TEnum c ms)
  then show ?case by (auto split: if_splits dest: failure_leaf)
next
  case TDatetime
  then show ?case by (auto split: if_splits dest: failure_leaf)
next
  case TDate
  then show ?case by (auto split: if_splits dest: failure_leaf)
next
  case (TNullable t)
  then show ?case by (cases r) auto
next
  case (TList t)
  show ?case
  proof (cases r)
    case (RList xs)
    with TList.prems obtain i p' where p: "p = Idx i # p'" and i: "i < length xs"
      and v: "violation L t (xs ! i) p' = Some e"
      by (auto split: list.splits loc_item.splits if_splits)
    from TList.IH [OF v] obtain es where es: "validate L t (xs ! i) = Inl es" "Err p' e \<in> set es"
      by blast
    from items_errors [OF i es(1), of 0] es(2)
    have mem: "Err p e \<in> set (fst (validate_items L t xs 0))"
      by (auto simp: p under_def intro!: rev_image_eqI [of "Err p' e"])
    then show ?thesis
      unfolding RList validate_TList_errors
      by (cases "validate_items L t xs 0") (auto split: list.splits)
  next
  qed (use TList.prems in \<open>auto split: if_splits\<close>)
next
  case (TModel c fs)
  show ?case
  proof (cases r)
    case (RDict m)
    with TModel.prems obtain k p' where p: "p = Key k # p'"
      and v: "violation_field L fs m k p' = Some e"
      by (auto split: list.splits loc_item.splits)
    from violation_field_cases [OF v] obtain f where f: "f \<in> set fs" "fwire f = k"
      and c: "case map_of m k of
                None \<Rightarrow> p' = [] \<and> fdefault f = Required \<and> e = Missing
              | Some r \<Rightarrow> violation L (ftyp f) r p' = Some e"
      by blast
    obtain n a t d where ff: "f = Field n a t d" by (cases f)
    have w: "wire n a = k" using f(2) by (simp add: ff fwire_def)
    have "\<exists>ef. validate_field L f m = Inl ef \<and> Err p e \<in> set ef"
    proof (cases "map_of m k")
      case None
      then show ?thesis using c w by (simp add: ff p)
    next
      case (Some r')
      with c have "violation L (ftyp f) r' p' = Some e" by simp
      from TModel.IH [OF f(1) this] obtain es where
        "validate L (ftyp f) r' = Inl es" "Err p' e \<in> set es" by blast
      then show ?thesis using Some w
        by (auto simp: ff p under_def intro!: rev_image_eqI [of "Err p' e"])
    qed
    then obtain ef where ef: "validate_field L f m = Inl ef" "Err p e \<in> set ef" by blast
    from construct_field_error [OF f(1) ef(1), of c] ef(2)
    show ?thesis by (auto simp: RDict construct_def)
  qed (use TModel.prems in \<open>auto split: if_splits\<close>)
next
  case (Field n a t d)
  then show ?case by simp
qed

text \<open>Conversely, whatever is reported is a violation, for well-formed declarations.\<close>

lemma items_errors_conv:
  "x \<in> set (fst (validate_items L t xs k)) \<Longrightarrow>
   \<exists>i < length xs. \<exists>es e'. validate L t (xs ! i) = Inl es \<and> e' \<in> set es \<and> x = under (Idx (k + i)) e'"
proof (induction xs arbitrary: k)
  case Nil
  then show ?case by simp
next
  case (Cons a xs)
  obtain es' vs' where r: "validate_items L t xs (Suc k) = (es', vs')" by force
  show ?case
  proof (cases "x \<in> set es'")
    case True
    with Cons.IH [of "Suc k"] r obtain i es e' where
      "i < length xs" "validate L t (xs ! i) = Inl es" "e' \<in> set es" "x = under (Idx (Suc k + i)) e'"
      by auto
    then show ?thesis by (intro exI [of _ "Suc i"]) auto
  next
    case False
    with Cons.prems r obtain e where "validate L t a = Inl e" "x \<in> under (Idx k) ` set e"
      by (auto split: sum.splits)
    then show ?thesis by (intro exI [of _ 0]) auto
  qed
qed

lemma violation_field_distinct:
  "distinct (map fwire fs) \<Longrightarrow> f \<in> set fs \<Longrightarrow>
   violation_field L fs m (fwire f) p =
     (case map_of m (fwire f) of
        None \<Rightarrow> if p = [] \<and> fdefault f = Required then Some Missing else None
      | Some r \<Rightarrow> violation L (ftyp f) r p)"
proof (induction fs)
  case Nil
  then show ?case by simp
next
  case (Cons g fs)
  obtain n a t d where g: "g = Field n a t d" by (cases g)
  show ?case
  proof (cases "f = g")
    case True
    then show ?thesis by (auto simp: g fwire_def split: option.splits)
  next
    case False
    then have "f \<in> set fs" using Cons.prems by simp
    moreover from this have "fwire f \<noteq> fwire g" using Cons.prems(1) by (auto simp: image_iff)
    ultimately show ?thesis using Cons by (simp add: g fwire_def)
  qed
qed

lemma under_eq: "Err p e = under i x \<Longrightarrow> \<exists>p'. p = i # p' \<and> x = Err p' e"
  by (cases x) (simp add: under_def)

lemma leaf_Inl: "leaf res = Inl es \<Longrightarrow> \<exists>e. res = Inl e \<and> es = [Err [] e]"
  by (cases res) (auto simp: leaf_def)

lemma reported_violation_gen:
  "wf t \<Longrightarrow> validate L t r = Inl es \<Longrightarrow> Err p e \<in> set es \<Longrightarrow> violation L t r p = Some e"
  "wf_field f \<Longrightarrow> validate L (ftyp f) r = Inl es \<Longrightarrow> Err p e \<in> set es \<Longrightarrow>
     violation L (ftyp f) r p = Some e"
proof (induction t and f arbitrary: r es p and r es p)
  case (TStr lo hi)
  then show ?case by (auto dest!: leaf_Inl simp: failure_def)
next
  case (TInt ge le)
  then show ?case by (auto dest!: leaf_Inl simp: failure_def)
next
  case (TFloat ge le)
  then show ?case by (auto dest!: leaf_Inl simp: failure_def)
next
  case (TEnum c ms)
  then show ?case by (auto dest!: leaf_Inl simp: failure_def)
next
  case TDatetime
  then show ?case by (auto dest!: leaf_Inl simp: failure_def)
next
  case TDate
  then show ?case by (auto dest!: leaf_Inl simp: failure_def)
next
  case (TNullable t)
  then show ?case by (cases r) auto
next
  case (TList t)
  show ?case
  proof (cases r)
    case (RList xs)
    with TList.prems(2) have es: "es = fst (validate_items L t xs 0)"
      by (auto split: prod.splits list.splits)
    with TList.prems(3) items_errors_conv [of "Err p e" L t xs 0]
    obtain i es' e' where i: "i < length xs" and v: "validate L t (xs ! i) = Inl es'"
      and e': "e' \<in> set es'" "Err p e = under (Idx i) e'"
      by auto
    from under_eq [OF e'(2)] obtain p' where p: "p = Idx i # p'" "e' = Err p' e" by blast
    have wt: "wf t" using TList.prems(1) by simp
    have m': "Err p' e \<in> set es'" using e'(1) p(2) by simp
    have "violation L t (xs ! i) p' = Some e"
      using wt v m' by (rule TList.IH)
    then show ?thesis using i by (simp add: RList p)
  qed (use TList.prems in auto)
next
  case (TModel c fs)
  show ?case
  proof (cases r)
    case (RDict m)
    with TModel.prems(2) have "es = fst (validate_fields L fs m)"
      by (auto split: prod.splits list.splits)
    with TModel.prems(3) obtain f where f: "f \<in> set fs" "Err p e \<in> set (field_errors L f m)"
      by (auto simp: fst_validate_fields)
    obtain n a t d where ff: "f = Field n a t d" by (cases f)
    have wff: "wf_field f" and dist: "distinct (map fwire fs)"
      using TModel.prems(1) f(1) by (auto simp: list_all_iff)
    have w: "fwire f = wire n a" by (simp add: ff fwire_def)
    have "\<exists>p'. p = Key (fwire f) # p' \<and>
        (case map_of m (fwire f) of
           None \<Rightarrow> if p' = [] \<and> fdefault f = Required then Some Missing else None
         | Some r \<Rightarrow> violation L (ftyp f) r p') = Some e"
    proof (cases "map_of m (wire n a)")
      case None
      then show ?thesis using f(2)
        by (auto simp: ff fwire_def field_errors_def split: dflt.splits)
    next
      case (Some r')
      with f(2) obtain es' where v: "validate L t r' = Inl es'"
        and "Err p e \<in> under (Key (wire n a)) ` set es'"
        by (auto simp: ff field_errors_def split: sum.splits)
      then obtain e' where e': "e' \<in> set es'" "Err p e = under (Key (wire n a)) e'" by blast
      from under_eq [OF e'(2)] obtain p' where p: "p = Key (wire n a) # p'" "e' = Err p' e"
        by blast
      have v': "validate L (ftyp f) r' = Inl es'" using v by (simp add: ff)
      have m': "Err p' e \<in> set es'" using e'(1) p(2) by simp
      have "violation L (ftyp f) r' p' = Some e"
        using f(1) wff v' m' by (rule TModel.IH)
      then show ?thesis using Some p(1) by (simp add: w)
    qed
    then obtain p' where p: "p = Key (fwire f) # p'"
      and "(case map_of m (fwire f) of
           None \<Rightarrow> if p' = [] \<and> fdefault f = Required then Some Missing else None
         | Some r \<Rightarrow> violation L (ftyp f) r p') = Some e"
      by blast
    then have "violation_field L fs m (fwire f) p' = Some e"
      using violation_field_distinct [OF dist f(1), of L m p'] by simp
    then show ?thesis by (simp add: RDict p)
  qed (use TModel.prems in auto)
next
  case (Field n a t d)
  then show ?case by simp
qed

lemma reported_iff_violation:
  assumes "C \<in> set models" "construct L C m = Inl es"
  shows "Err p e \<in> set es \<longleftrightarrow> violation L C (RDict m) p = Some e"
proof
  have w: "wf C" using models_wf assms(1) by (simp add: list_all_iff)
  show "violation L C (RDict m) p = Some e" if "Err p e \<in> set es"
    using w assms(2) that reported_violation_gen(1) by (simp add: construct_def)
  show "Err p e \<in> set es" if "violation L C (RDict m) p = Some e"
    using violation_reported_gen(1) [OF that] assms(2) by (auto simp: construct_def)
qed

lemma validate_items_Cons_Inl:
  assumes "validate L t x = Inl e" "validate_items L t xs (Suc i) = ([], vs)"
  shows "validate_items L t (x # xs) i = (map (under (Idx i)) e, vs)"
  using assms by simp

lemma sequence_fields_models:
  "map (\<lambda>C. map fname (sequence_fields C)) models =
     [[], [], [''customizations''], [], [], [], [], [], [], [''items''], [''items''], [],
      [''favoriteRestaurants'', ''preferredCuisines''],
      [''dietaryRestrictions'', ''favoriteItems'', ''avoidIngredients''], [],
      [''couponsAvailable''], [''recentOrders'']]"
  by (simp add: models_def class_defs sequence_fields_def fields_of_def)

lemma sequence_fields_default_list:
  "list_all (\<lambda>C. list_all (\<lambda>f. falias f = None \<and>
      fdefault f = (if fname f = ''items'' then Required else Default_Factory_List))
        (sequence_fields C)) models"
  by (simp add: models_def class_defs sequence_fields_def fields_of_def)

lemma sequence_fields_default:
  "C \<in> set models \<Longrightarrow> f \<in> set (sequence_fields C) \<Longrightarrow>
     falias f = None \<and> fdefault f = (if fname f = ''items'' then Required else Default_Factory_List)"
  using sequence_fields_default_list unfolding list_all_iff by blast

lemma construct_round_trip:
  assumes "C \<in> set models" "construct L C m = Inr x"
  shows "construct L C (model_dump C x) = Inr x"
proof -
  have "conforms C x" using assms by (rule construct_conforms)
  then have "validate L C (serialize C x) = Inr x"
    using models_wf assms(1) roundtrip_gen(1) by (simp add: list_all_iff)
  moreover from assms(1) obtain c fs where "C = TModel c fs" using models_classes by blast
  ultimately show ?thesis
    using \<open>conforms C x\<close> by (cases x) (auto simp: construct_def model_dump_def)
qed

section \<open>Identifier lengths\<close>

text \<open>
  Claim C1, as amended. Only \<open>OrderModel\<close> (the identity record) bounds the length of
  \<open>orderId\<close>, \<open>customerId\<close> and \<open>customerName\<close>: its construction fails with
  \<open>String_Too_Short\<close>, a constraint violation, at the field whenever the string supplied for
  one of them has fewer than 5 characters, and every constructed \<open>OrderModel\<close> has all three
  of length at least 5. \<open>Order\<close>, \<open>RecentOrder\<close> and \<open>Customer\<close> declare these fields as
  plain strings, with an alias and no length bound, so every string validates there.
\<close>

theorem OrderModel_min_length:
  "(\<forall>k s. k \<in> {''orderId'', ''customerId'', ''customerName''} \<longrightarrow>
       map_of m k = Some (RStr s) \<longrightarrow> length s < 5 \<longrightarrow>
       (\<exists>es. construct L OrderModel m = Inl es \<and> Err [Key k] String_Too_Short \<in> set es))
   \<and> taxonomy String_Too_Short = ConstraintViolation
   \<and> (\<forall>x. construct L OrderModel m = Inr x \<longrightarrow>
       (\<exists>a b c. x = VModel ''OrderModel''
            [(''orderId'', VStr a), (''customerId'', VStr b), (''customerName'', VStr c)]
          \<and> 5 \<le> length a \<and> 5 \<le> length b \<and> 5 \<le> length c))
   \<and> (\<forall>C \<in> set [Order, RecentOrder, Customer]. \<forall>f \<in> set (fields_of C).
         fname f \<in> {''orderId'', ''customerId'', ''customerName''} \<longrightarrow> ftyp f = TStr None None)
   \<and> (\<forall>s. validate L (TStr None None) (RStr s) = Inr (VStr s))"
proof -
  have O: "OrderModel = TModel ''OrderModel'' (fields_of OrderModel)"
    by (simp add: OrderModel_def fields_of_def)
  have 1: "\<exists>es. construct L OrderModel m = Inl es \<and> Err [Key k] String_Too_Short \<in> set es"
    if k: "k \<in> {''orderId'', ''customerId'', ''customerName''}"
      and m: "map_of m k = Some (RStr s)" and s: "length s < 5" for k s
  proof -
    let ?f = "Field k None (TStr (Some 5) None) Required"
    have "validate_field L ?f m = Inl [Err [Key k] String_Too_Short]"
      using m s by (simp add: wire_def under_def leaf_def str_validator_def below_def)
    moreover have "?f \<in> set (fields_of OrderModel)"
      using k by (auto simp: OrderModel_def fields_of_def)
    ultimately show ?thesis
      using construct_field_error [of ?f "fields_of OrderModel" L m _ "''OrderModel''"] O by auto
  qed
  have 3: "\<exists>a b c. x = VModel ''OrderModel''
            [(''orderId'', VStr a), (''customerId'', VStr b), (''customerName'', VStr c)]
          \<and> 5 \<le> length a \<and> 5 \<le> length b \<and> 5 \<le> length c"
    if "construct L OrderModel m = Inr x" for x
  proof -
    let ?f = "\<lambda>k. Field k None (TStr (Some 5) None) Required"
    have min5: "\<exists>s. v = VStr s \<and> 5 \<le> length s" if "validate_field L (?f k) m = Inr v" for k v
      using that
      by (auto simp: wire_def leaf_def str_validator_def below_def above_def
          split: option.splits raw.splits if_splits sum.splits dflt.splits)
    have "construct L (TModel ''OrderModel'' [?f ''orderId'', ?f ''customerId'', ?f ''customerName'']) m
        = Inr x"
      using that unfolding OrderModel_def .
    then have v: "\<exists>v. validate_field L (?f ''orderId'') m = Inr v"
        "\<exists>v. validate_field L (?f ''customerId'') m = Inr v"
        "\<exists>v. validate_field L (?f ''customerName'') m = Inr v"
      and x: "x = VModel ''OrderModel''
        [(''orderId'', projr (validate_field L (?f ''orderId'') m)),
         (''customerId'', projr (validate_field L (?f ''customerId'') m)),
         (''customerName'', projr (validate_field L (?f ''customerName'') m))]"
      by (simp_all add: construct_Inr_values del: validate_field.simps)
    from v(1) min5 [of "''orderId''"] obtain a where
      a: "validate_field L (?f ''orderId'') m = Inr (VStr a)" "5 \<le> length a"
      by blast
    from v(2) min5 [of "''customerId''"] obtain b where
      b: "validate_field L (?f ''customerId'') m = Inr (VStr b)" "5 \<le> length b"
      by blast
    from v(3) min5 [of "''customerName''"] obtain c where
      c: "validate_field L (?f ''customerName'') m = Inr (VStr c)" "5 \<le> length c"
      by blast
    from x a b c show ?thesis by (simp del: validate_field.simps)
  qed
  have 4: "\<forall>C \<in> set [Order, RecentOrder, Customer]. \<forall>f \<in> set (fields_of C).
         fname f \<in> {''orderId'', ''customerId'', ''customerName''} \<longrightarrow> ftyp f = TStr None None"
    by (simp add: Order_def RecentOrder_def Customer_def fields_of_def)
  have 5: "validate L (TStr None None) (RStr s) = Inr (VStr s)" for s
    by (simp add: leaf_def str_validator_def below_def above_def)
  from 1 3 4 5 show ?thesis by simp
qed

theorem OrderModel_min_length_witness:
  "construct no_conversion OrderModel
     [(''orderId'', RStr ''ab''), (''customerId'', RStr ''CUST001''), (''customerName'', RStr ''Anita'')]
     = Inl [Err [Key ''orderId''] String_Too_Short]
   \<and> construct no_conversion OrderModel
     [(''orderId'', RStr ''ORD01''), (''customerId'', RStr ''CUST001''), (''customerName'', RStr ''Anita'')]
     = Inr (VModel ''OrderModel''
         [(''orderId'', VStr ''ORD01''), (''customerId'', VStr ''CUST001''), (''customerName'', VStr ''Anita'')])"
proof -
  let ?m = "[(''orderId'', RStr ''ab''), (''customerId'', RStr ''CUST001''), (''customerName'', RStr ''Anita'')]"
  have "''orderId'' \<in> {''orderId'', ''customerId'', ''customerName''}" by simp
  moreover have "map_of ?m ''orderId'' = Some (RStr ''ab'')" by simp
  moreover have "length ''ab'' < 5" by simp
  ultimately obtain es where "construct no_conversion OrderModel ?m = Inl es"
    "Err [Key ''orderId''] String_Too_Short \<in> set es"
    using OrderModel_min_length [of ?m no_conversion] by blast
  moreover have "construct no_conversion OrderModel ?m = Inl [Err [Key ''orderId''] String_Too_Short]"
    by code_simp
  moreover have "construct no_conversion OrderModel
     [(''orderId'', RStr ''ORD01''), (''customerId'', RStr ''CUST001''), (''customerName'', RStr ''Anita'')]
     = Inr (VModel ''OrderModel''
         [(''orderId'', VStr ''ORD01''), (''customerId'', VStr ''CUST001''), (''customerName'', VStr ''Anita'')])"
    by code_simp
  ultimately show ?thesis by simp
qed

text \<open>
  Claim C1 as stated fails on \<open>Order\<close>: an order whose \<open>orderId\<close> is the two-character
  string \<open>ab\<close> is constructed, and holds that \<open>orderId\<close>.
\<close>

theorem order_short_id_counterexample:
  "\<not> isl (construct no_conversion Order (AList.update ''orderId'' (RStr ''ab'') sample_order))
   \<and> attr (projr (construct no_conversion Order (AList.update ''orderId'' (RStr ''ab'') sample_order)))
        ''orderId'' = Some (VStr ''ab'')
   \<and> length ''ab'' < 5"
  by code_simp

section \<open>Round trip\<close>

text \<open>
  Claim C2. For every record type of the schema and every valid instance \<open>x\<close> of it,
  serialising \<open>x\<close> gives a raw mapping (each field under its wire key), and construction
  from that mapping succeeds and gives an instance equal to \<open>x\<close>.
\<close>

theorem round_trip:
  assumes "C \<in> set models" "conforms C x"
  shows "serialize C x = RDict (model_dump C x) \<and> construct L C (model_dump C x) = Inr x"
proof -
  have w: "wf C" using models_wf assms(1) by (simp add: list_all_iff)
  from assms(1) obtain c fs where C: "C = TModel c fs" using models_classes by blast
  from assms(2) obtain kvs where x: "x = VModel c kvs" by (cases x) (auto simp: C)
  have s: "serialize C x = RDict (model_dump C x)" by (simp add: C x model_dump_def)
  have "validate L C (serialize C x) = Inr x" using w assms(2) by (rule roundtrip_gen(1))
  with s show ?thesis by (simp add: construct_def)
qed

theorem round_trip_witness:
  "model_dump Payment (VModel ''Payment''
      [(''method'', VStr ''UPI''), (''transactionId'', VStr ''TXN1''), (''status'', VStr ''paid'')])
    = [(''method'', RStr ''UPI''), (''transactionId'', RStr ''TXN1''), (''status'', RStr ''paid'')]
   \<and> construct no_conversion Payment
      [(''method'', RStr ''UPI''), (''transactionId'', RStr ''TXN1''), (''status'', RStr ''paid'')]
    = Inr (VModel ''Payment''
      [(''method'', VStr ''UPI''), (''transactionId'', VStr ''TXN1''), (''status'', VStr ''paid'')])"
proof -
  let ?x = "VModel ''Payment''
      [(''method'', VStr ''UPI''), (''transactionId'', VStr ''TXN1''), (''status'', VStr ''paid'')]"
  have 1: "Payment \<in> set models" by (simp add: models_def)
  have 2: "conforms Payment ?x" by (simp add: Payment_def below_def above_def)
  have 3: "model_dump Payment ?x
    = [(''method'', RStr ''UPI''), (''transactionId'', RStr ''TXN1''), (''status'', RStr ''paid'')]"
    by (simp add: model_dump_def Payment_def wire_def)
  from round_trip [OF 1 2, of no_conversion] 3 show ?thesis by simp
qed

section \<open>Sequence defaults\<close>

text \<open>
  Claim C3, as amended. The ordered-sequence fields of the schema are the ones listed
  below, class by class. Every one of them except \<open>items\<close> (of \<open>Order\<close> and of
  \<open>RecentOrder\<close>) is declared with \<^verbatim>\<open>default_factory=list\<close>: when its key is absent the field
  validates to the empty sequence, with no \<open>Missing\<close> error and no null marker. In
  particular an \<open>Item\<close> without \<open>customizations\<close> is constructed with
  \<open>customizations\<close> empty. The \<open>items\<close> field of \<open>Order\<close> and \<open>RecentOrder\<close> has no default:
  when its key is absent construction fails with \<open>Missing\<close> at \<open>items\<close>.
\<close>

theorem sequence_defaults:
  "(\<forall>C \<in> set models. \<forall>f \<in> set (sequence_fields C). map_of m (fwire f) = None \<longrightarrow>
       validate_field L f m =
         (if fname f = ''items'' then Inl [Err [Key ''items''] Missing] else Inr (VList [])))
   \<and> map (\<lambda>C. map fname (sequence_fields C)) models =
       [[], [], [''customizations''], [], [], [], [], [], [], [''items''], [''items''], [],
        [''favoriteRestaurants'', ''preferredCuisines''],
        [''dietaryRestrictions'', ''favoriteItems'', ''avoidIngredients''], [],
        [''couponsAvailable''], [''recentOrders'']]
   \<and> (map_of m ''customizations'' = None \<longrightarrow>
        (\<forall>x. construct L Item m = Inr x \<longrightarrow> attr x ''customizations'' = Some (VList [])) \<and>
        (\<forall>a q p. map_of m ''name'' = Some (RStr a) \<longrightarrow> map_of m ''quantity'' = Some (RInt q) \<longrightarrow>
           1 \<le> q \<longrightarrow> map_of m ''price'' = Some (RFloat p) \<longrightarrow> 0 \<le> p \<longrightarrow>
           construct L Item m = Inr (VModel ''Item''
             [(''name'', VStr a), (''quantity'', VInt q), (''price'', VFloat p),
              (''customizations'', VList [])])))
   \<and> (map_of m ''items'' = None \<longrightarrow>
        (\<forall>C \<in> set [Order, RecentOrder].
           \<exists>es. construct L C m = Inl es \<and> Err [Key ''items''] Missing \<in> set es))
   \<and> taxonomy Missing = MissingField"
proof -
  have 1: "validate_field L f m =
         (if fname f = ''items'' then Inl [Err [Key ''items''] Missing] else Inr (VList []))"
    if "C \<in> set models" "f \<in> set (sequence_fields C)" "map_of m (fwire f) = None" for C f
  proof -
    from sequence_fields_default [OF that(1,2)]
    have a: "falias f = None"
      and d: "fdefault f = (if fname f = ''items'' then Required else Default_Factory_List)"
      by simp_all
    obtain n al t df where f: "f = Field n al t df" by (cases f)
    show ?thesis using that(3) a d by (simp add: f fwire_def wire_def)
  qed
  have 3: "attr x ''customizations'' = Some (VList [])"
    if "map_of m ''customizations'' = None" "construct L Item m = Inr x" for x
  proof -
    let ?f = "Field ''customizations'' None (TList (TStr None None)) Default_Factory_List"
    have "construct L (TModel ''Item'' (fields_of Item)) m = Inr x"
      using that(2) by (simp add: Item_def fields_of_def)
    moreover have "?f \<in> set (fields_of Item)" by (simp add: Item_def fields_of_def)
    moreover have "distinct (map fname (fields_of Item))" by (simp add: Item_def fields_of_def)
    ultimately obtain v where "validate_field L ?f m = Inr v" "attr x (fname ?f) = Some v"
      using construct_attr by blast
    then show ?thesis using that(1) by (simp add: wire_def)
  qed
  have 4: "construct L Item m = Inr (VModel ''Item''
             [(''name'', VStr a), (''quantity'', VInt q), (''price'', VFloat p),
              (''customizations'', VList [])])"
    if "map_of m ''customizations'' = None" "map_of m ''name'' = Some (RStr a)"
      "map_of m ''quantity'' = Some (RInt q)" "1 \<le> q" "map_of m ''price'' = Some (RFloat p)"
      "0 \<le> p" for a q p
    using that
    by (simp add: construct_def Item_def wire_def leaf_def str_validator_def int_validator_def
        float_validator_def below_def above_def)
  have 5: "\<exists>es. construct L C m = Inl es \<and> Err [Key ''items''] Missing \<in> set es"
    if "map_of m ''items'' = None" "C \<in> set [Order, RecentOrder]" for C
  proof -
    let ?f = "Field ''items'' None (TList Item) Required"
    have v: "validate_field L ?f m = Inl [Err [Key ''items''] Missing]"
      using that(1) by (simp add: wire_def)
    from that(2) have mem: "?f \<in> set (fields_of C)"
      by (auto simp: Order_def RecentOrder_def fields_of_def)
    from that(2) obtain c where "C = TModel c (fields_of C)"
      by (auto simp: Order_def RecentOrder_def fields_of_def)
    then show ?thesis
      using construct_field_error [OF mem v, of c] by auto
  qed
  from 1 sequence_fields_models 3 4 5 show ?thesis by simp
qed

theorem sequence_defaults_witness:
  "construct no_conversion Item sample_item = Inr (VModel ''Item''
      [(''name'', VStr ''Dosa''), (''quantity'', VInt 2), (''price'', VFloat 60),
       (''customizations'', VList [])])
   \<and> construct no_conversion RecentOrder (AList.delete ''items'' sample_order)
       = Inl [Err [Key ''items''] Missing]"
proof -
  have m: "map_of sample_item ''customizations'' = None"
    "map_of sample_item ''name'' = Some (RStr ''Dosa'')"
    "map_of sample_item ''quantity'' = Some (RInt 2)"
    "map_of sample_item ''price'' = Some (RFloat 60)"
    by (simp_all add: sample_item_def)
  have "(1::int) \<le> 2" "(0::rat) \<le> 60" by simp_all
  with m sequence_defaults [of sample_item no_conversion]
  have "construct no_conversion Item sample_item = Inr (VModel ''Item''
      [(''name'', VStr ''Dosa''), (''quantity'', VInt 2), (''price'', VFloat 60),
       (''customizations'', VList [])])"
    by blast
  moreover have "construct no_conversion RecentOrder (AList.delete ''items'' sample_order)
       = Inl [Err [Key ''items''] Missing]"
    by code_simp
  ultimately show ?thesis by simp
qed

text \<open>
  Claim C3 as stated fails on \<open>Order\<close>: without \<open>items\<close> the sample order is refused
  with a missing-field error.
\<close>

theorem order_items_required_counterexample:
  "construct no_conversion Order (AList.delete ''items'' sample_order)
     = Inl [Err [Key ''items''] Missing]"
  by code_simp

section \<open>Error collection\<close>

text \<open>
  Claim C4. A raw mapping with two independent violations, that is, a violation at each
  of two different locations (two fields of the class, two fields of one nested record,
  two elements of one list, or any mix at any depth), gives in a single construction
  attempt a failure report that holds an entry for each of them, so at least two
  entries: validation does not stop at the first failure. This holds for every
  declaration, those of \<^verbatim>\<open>models.py\<close> among them.
\<close>

theorem all_field_errors_collected:
  assumes "violation L C (RDict m) p1 = Some e1"
    and "violation L C (RDict m) p2 = Some e2"
    and "p1 \<noteq> p2"
  shows "\<exists>es. construct L C m = Inl es \<and> Err p1 e1 \<in> set es \<and> Err p2 e2 \<in> set es
           \<and> 2 \<le> length es"
proof -
  from violation_reported_gen(1) [OF assms(1)] obtain es where
    es: "validate L C (RDict m) = Inl es" "Err p1 e1 \<in> set es" by blast
  from violation_reported_gen(1) [OF assms(2)] es(1) have 2: "Err p2 e2 \<in> set es" by auto
  have "{Err p1 e1, Err p2 e2} \<subseteq> set es" using es(2) 2 by simp
  then have "card {Err p1 e1, Err p2 e2} \<le> card (set es)" by (intro card_mono) auto
  moreover have "card {Err p1 e1, Err p2 e2} = 2" using assms(3) by simp
  moreover have "card (set es) \<le> length es" by (rule card_length)
  ultimately have "2 \<le> length es" by linarith
  with es 2 show ?thesis by (auto simp: construct_def)
qed

theorem all_field_errors_collected_witness:
  "construct no_conversion Order bad_restaurant_order =
     Inl [Err [Key ''restaurant'', Key ''name''] String_Type,
          Err [Key ''restaurant'', Key ''rating''] Less_Than_Equal]
   \<and> construct no_conversion Order bad_items_order =
     Inl [Err [Key ''items'', Idx 0, Key ''price''] Greater_Than_Equal,
          Err [Key ''items'', Idx 1, Key ''price''] Greater_Than_Equal]"
proof -
  have 1: "violation no_conversion Order (RDict bad_restaurant_order)
      [Key ''restaurant'', Key ''name''] = Some String_Type"
    by code_simp
  have 2: "violation no_conversion Order (RDict bad_restaurant_order)
      [Key ''restaurant'', Key ''rating''] = Some Less_Than_Equal"
    by code_simp
  have 3: "[Key ''restaurant'', Key ''name''] \<noteq> [Key ''restaurant'', Key ''rating'']" by simp
  from all_field_errors_collected [OF 1 2 3]
  obtain es where "construct no_conversion Order bad_restaurant_order = Inl es" "2 \<le> length es"
    by blast
  moreover have "construct no_conversion Order bad_restaurant_order =
     Inl [Err [Key ''restaurant'', Key ''name''] String_Type,
          Err [Key ''restaurant'', Key ''rating''] Less_Than_Equal]"
    by code_simp
  moreover have "construct no_conversion Order bad_items_order =
     Inl [Err [Key ''items'', Idx 0, Key ''price''] Greater_Than_Equal,
          Err [Key ''items'', Idx 1, Key ''price''] Greater_Than_Equal]"
    by code_simp
  ultimately show ?thesis by simp
qed

section \<open>A negative price in an order\<close>

text \<open>
  Claim C5. Take a raw mapping from which an \<open>Order\<close> is constructed and give the element
  at index 0 of its \<open>items\<close> the price \<open>-1\<close> (as a float or as an integer). Construction
  then fails as a whole: the result is a failure report and no instance. The report has
  the single entry at the path \<open>items\<close>, 0, \<open>price\<close>, of type \<open>Greater_Than_Equal\<close>, a
  constraint violation; that the failure is nested is what the path says.
\<close>

theorem negative_price_fails_order:
  assumes "construct L Order m = Inr x"
    and "map_of m ''items'' = Some (RList (RDict it # rest))"
    and "p = RFloat (- 1) \<or> p = RInt (- 1)"
  shows "construct L Order
           (AList.update ''items'' (RList (RDict (AList.update ''price'' p it) # rest)) m)
         = Inl [Err [Key ''items'', Idx 0, Key ''price''] Greater_Than_Equal]
       \<and> taxonomy Greater_Than_Equal = ConstraintViolation"
proof -
  let ?it = "AList.update ''price'' p it"
  let ?m = "AList.update ''items'' (RList (RDict ?it # rest)) m"
  let ?items = "Field ''items'' None (TList Item) Required"
  let ?price = "Field ''price'' None (TFloat (Some 0) None) Required"
  have O: "Order = TModel ''Order'' (fields_of Order)" by (simp add: Order_def fields_of_def)
  have I: "Item = TModel ''Item'' (fields_of Item)" by (simp add: Item_def fields_of_def)
  have dO: "distinct (fields_of Order)" by (simp add: Order_def fields_of_def)
  have dI: "distinct (fields_of Item)" by (simp add: Item_def fields_of_def)
  have memO: "?items \<in> set (fields_of Order)" by (simp add: Order_def fields_of_def)
  have memI: "?price \<in> set (fields_of Item)" by (simp add: Item_def fields_of_def)
  from assms(1) O have allO: "\<forall>f \<in> set (fields_of Order). \<exists>v. validate_field L f m = Inr v"
    using construct_Inr_values [of L "''Order''" "fields_of Order" m x] by simp
  with memO obtain v where "validate_field L ?items m = Inr v" by blast
  with assms(2) have "\<exists>v. validate L (TList Item) (RList (RDict it # rest)) = Inr v"
    by (auto simp: wire_def split: sum.splits)
  then obtain v0 vs where it: "validate L Item (RDict it) = Inr v0"
    and rest: "validate_items L Item rest (Suc 0) = ([], vs)"
    using validate_Inl_nonempty [of L Item "RDict it"]
    by (auto split: prod.splits list.splits sum.splits)
  from it I have allI: "\<forall>f \<in> set (fields_of Item). \<exists>v. validate_field L f it = Inr v"
    using construct_Inr_values [of L "''Item''" "fields_of Item" it v0]
    by (simp add: construct_def)
  have price: "validate_field L ?price ?it = Inl [Err [Key ''price''] Greater_Than_Equal]"
    using assms(3)
    by (auto simp: update_conv' wire_def under_def leaf_def float_validator_def below_def above_def)
  have "construct L (TModel ''Item'' (fields_of Item)) ?it
      = Inl [Err [Key ''price''] Greater_Than_Equal]"
    using memI dI price
  proof (rule construct_single_error)
    fix g assume g: "g \<in> set (fields_of Item)" "g \<noteq> ?price"
    then have "fwire g \<noteq> ''price''" by (auto simp: Item_def fields_of_def fwire_def wire_def)
    then have "map_of ?it (fwire g) = map_of it (fwire g)" by (simp add: update_conv')
    then have "validate_field L g ?it = validate_field L g it" by (rule validate_field_agree)
    with allI g(1) show "\<exists>v. validate_field L g ?it = Inr v" by simp
  qed
  then have "validate L Item (RDict ?it) = Inl [Err [Key ''price''] Greater_Than_Equal]"
    using I by (simp add: construct_def)
  from validate_items_Cons_Inl [OF this rest]
  have "validate L (TList Item) (RList (RDict ?it # rest))
      = Inl [Err [Idx 0, Key ''price''] Greater_Than_Equal]"
    by (simp add: validate_TList_errors under_def)
  then have items: "validate_field L ?items ?m
      = Inl [Err [Key ''items'', Idx 0, Key ''price''] Greater_Than_Equal]"
    by (simp add: update_conv' wire_def under_def)
  have "construct L (TModel ''Order'' (fields_of Order)) ?m
      = Inl [Err [Key ''items'', Idx 0, Key ''price''] Greater_Than_Equal]"
    using memO dO items
  proof (rule construct_single_error)
    fix g assume g: "g \<in> set (fields_of Order)" "g \<noteq> ?items"
    then have "fwire g \<noteq> ''items''"
      by (auto simp: Order_def fields_of_def fwire_def wire_def)
    then have "map_of ?m (fwire g) = map_of m (fwire g)" by (simp add: update_conv')
    then have "validate_field L g ?m = validate_field L g m" by (rule validate_field_agree)
    with allO g(1) show "\<exists>v. validate_field L g ?m = Inr v" by simp
  qed
  with O show ?thesis by simp
qed

theorem negative_price_fails_order_witness:
  "construct no_conversion Order
     (AList.update ''items'' (RList [RDict (AList.update ''price'' (RInt (- 1)) sample_item)])
        sample_order)
   = Inl [Err [Key ''items'', Idx 0, Key ''price''] Greater_Than_Equal]"
proof -
  have "\<not> isl (construct no_conversion Order sample_order)" by code_simp
  then obtain x where x: "construct no_conversion Order sample_order = Inr x"
    by (cases "construct no_conversion Order sample_order") auto
  have m: "map_of sample_order ''items'' = Some (RList (RDict sample_item # []))"
    by (simp add: sample_order_def)
  have p: "RInt (- 1) = RFloat (- 1) \<or> RInt (- 1) = RInt (- 1)" by simp
  from negative_price_fails_order [OF x m p] show ?thesis by simp
qed

section \<open>Enumerations\<close>

text \<open>
  Claim C6. \<open>OrderStatus\<close> has exactly the members pending, preparing, out_for_delivery,
  delivered and cancelled, and \<open>SpiceLevel\<close> exactly Mild, Medium and Hot. Validating a raw
  string against either succeeds if and only if the string is one of the members,
  compared case-sensitively, and fails otherwise with the error type \<open>Enum\<close>, an
  \<open>InvalidEnumValue\<close>. So \<open>delivered\<close> validates, \<open>Delivered\<close> does not, and an \<open>Order\<close>
  whose status is \<open>Delivered\<close> fails with that error at \<open>status\<close>.
\<close>

theorem enum_closed:
  "validate L OrderStatus (RStr s) =
     (if s \<in> {''pending'', ''preparing'', ''out_for_delivery'', ''delivered'', ''cancelled''}
      then Inr (VEnum ''OrderStatus'' s) else Inl [Err [] Enum])
   \<and> validate L SpiceLevel (RStr s) =
     (if s \<in> {''Mild'', ''Medium'', ''Hot''}
      then Inr (VEnum ''SpiceLevel'' s) else Inl [Err [] Enum])
   \<and> taxonomy Enum = InvalidEnumValue
   \<and> validate L OrderStatus (RStr ''delivered'') = Inr (VEnum ''OrderStatus'' ''delivered'')
   \<and> validate L OrderStatus (RStr ''Delivered'') = Inl [Err [] Enum]
   \<and> (map_of m ''status'' = Some (RStr ''Delivered'') \<longrightarrow>
        (\<exists>es. construct L Order m = Inl es \<and> Err [Key ''status''] Enum \<in> set es))"
proof -
  have a: "validate L OrderStatus (RStr s) =
     (if s \<in> {''pending'', ''preparing'', ''out_for_delivery'', ''delivered'', ''cancelled''}
      then Inr (VEnum ''OrderStatus'' s) else Inl [Err [] Enum])"
    by (auto simp: OrderStatus_def enum_validator_def leaf_def)
  have b: "validate L SpiceLevel (RStr s) =
     (if s \<in> {''Mild'', ''Medium'', ''Hot''}
      then Inr (VEnum ''SpiceLevel'' s) else Inl [Err [] Enum])"
    by (auto simp: SpiceLevel_def enum_validator_def leaf_def)
  have c: "validate L OrderStatus (RStr ''delivered'') = Inr (VEnum ''OrderStatus'' ''delivered'')"
    by (simp add: OrderStatus_def enum_validator_def leaf_def)
  have d: "validate L OrderStatus (RStr ''Delivered'') = Inl [Err [] Enum]"
    by (simp add: OrderStatus_def enum_validator_def leaf_def)
  have e: "\<exists>es. construct L Order m = Inl es \<and> Err [Key ''status''] Enum \<in> set es"
    if "map_of m ''status'' = Some (RStr ''Delivered'')"
  proof -
    let ?f = "Field ''status'' None OrderStatus Required"
    have "validate_field L ?f m = Inl [Err [Key ''status''] Enum]"
      using that d by (simp add: wire_def under_def)
    moreover have "?f \<in> set (fields_of Order)" by (simp add: Order_def fields_of_def)
    moreover have "Order = TModel ''Order'' (fields_of Order)" by (simp add: Order_def fields_of_def)
    ultimately show ?thesis
      using construct_field_error [of ?f "fields_of Order" L m _ "''Order''"] by auto
  qed
  from a b c d e show ?thesis by simp
qed

theorem enum_closed_witness:
  "construct no_conversion Order (AList.update ''status'' (RStr ''Delivered'') sample_order)
     = Inl [Err [Key ''status''] Enum]
   \<and> \<not> isl (construct no_conversion Order (AList.update ''status'' (RStr ''delivered'') sample_order))"
proof -
  let ?m = "AList.update ''status'' (RStr ''Delivered'') sample_order"
  have "map_of ?m ''status'' = Some (RStr ''Delivered'')" by (simp add: update_conv')
  with enum_closed [of no_conversion "''x''" ?m]
  obtain es where "construct no_conversion Order ?m = Inl es" "Err [Key ''status''] Enum \<in> set es"
    by blast
  moreover have "construct no_conversion Order ?m = Inl [Err [Key ''status''] Enum]" by code_simp
  moreover have "\<not> isl (construct no_conversion Order (AList.update ''status'' (RStr ''delivered'') sample_order))"
    by code_simp
  ultimately show ?thesis by simp
qed

section \<open>Pincode\<close>

text \<open>
  Claim C7. For every string \<open>s\<close> supplied as the \<open>pincode\<close> of a \<open>DeliveryAddress\<close>:
  if \<open>s\<close> does not have exactly 6 characters construction fails, with \<open>String_Too_Short\<close>
  or \<open>String_Too_Long\<close> at \<open>pincode\<close>; and with the other three fields given as strings,
  construction succeeds if and only if \<open>s\<close> has exactly 6 characters. Only the number of
  characters is checked, not that they are digits.
\<close>

theorem pincode_exactly_six:
  assumes "map_of m ''pincode'' = Some (RStr s)"
  shows "(length s \<noteq> 6 \<longrightarrow>
           (\<exists>es. construct L DeliveryAddress m = Inl es \<and>
              Err [Key ''pincode''] (if length s < 6 then String_Too_Short else String_Too_Long)
                \<in> set es))
       \<and> (map_of m ''label'' = Some (RStr a) \<longrightarrow> map_of m ''address'' = Some (RStr b) \<longrightarrow>
          map_of m ''city'' = Some (RStr c) \<longrightarrow>
          construct L DeliveryAddress m =
            (if length s = 6
             then Inr (VModel ''DeliveryAddress''
               [(''label'', VStr a), (''address'', VStr b), (''city'', VStr c), (''pincode'', VStr s)])
             else Inl [Err [Key ''pincode'']
               (if length s < 6 then String_Too_Short else String_Too_Long)]))"
proof -
  let ?f = "Field ''pincode'' None (TStr (Some 6) (Some 6)) Required"
  let ?e = "Err [Key ''pincode''] (if length s < 6 then String_Too_Short else String_Too_Long)"
  have 1: "\<exists>es. construct L DeliveryAddress m = Inl es \<and> ?e \<in> set es" if "length s \<noteq> 6"
  proof -
    have "validate_field L ?f m = Inl [?e]"
      using assms that
      by (auto simp: wire_def under_def leaf_def str_validator_def below_def above_def)
    moreover have "?f \<in> set (fields_of DeliveryAddress)"
      by (simp add: DeliveryAddress_def fields_of_def)
    moreover have "DeliveryAddress = TModel ''DeliveryAddress'' (fields_of DeliveryAddress)"
      by (simp add: DeliveryAddress_def fields_of_def)
    ultimately show ?thesis
      using construct_field_error [of ?f "fields_of DeliveryAddress" L m "[?e]" "''DeliveryAddress''"]
      by auto
  qed
  have 2: "construct L DeliveryAddress m =
            (if length s = 6
             then Inr (VModel ''DeliveryAddress''
               [(''label'', VStr a), (''address'', VStr b), (''city'', VStr c), (''pincode'', VStr s)])
             else Inl [?e])"
    if "map_of m ''label'' = Some (RStr a)" "map_of m ''address'' = Some (RStr b)"
       "map_of m ''city'' = Some (RStr c)"
    using assms that
    by (auto simp: construct_def DeliveryAddress_def wire_def under_def leaf_def str_validator_def
        below_def above_def)
  from 1 2 show ?thesis by blast
qed

theorem pincode_exactly_six_witness:
  "\<not> isl (construct no_conversion DeliveryAddress (AList.update ''pincode'' (RStr ''123456'') sample_address))
   \<and> \<not> isl (construct no_conversion DeliveryAddress (AList.update ''pincode'' (RStr ''abcdef'') sample_address))
   \<and> construct no_conversion DeliveryAddress (AList.update ''pincode'' (RStr ''12345'') sample_address)
       = Inl [Err [Key ''pincode''] String_Too_Short]
   \<and> construct no_conversion DeliveryAddress (AList.update ''pincode'' (RStr ''1234567'') sample_address)
       = Inl [Err [Key ''pincode''] String_Too_Long]"
proof -
  have m: "map_of (AList.update ''pincode'' (RStr s) sample_address) ''pincode'' = Some (RStr s)"
    "map_of (AList.update ''pincode'' (RStr s) sample_address) ''label'' = Some (RStr ''Home'')"
    "map_of (AList.update ''pincode'' (RStr s) sample_address) ''address'' = Some (RStr ''1 Main St'')"
    "map_of (AList.update ''pincode'' (RStr s) sample_address) ''city'' = Some (RStr ''Chennai'')"
    for s
    by (simp_all add: update_conv' sample_address_def)
  note t = pincode_exactly_six [where L = no_conversion and a = "''Home''"
      and b = "''1 Main St''" and c = "''Chennai''", OF m(1)]
  show ?thesis
    using t [of "''123456''"] t [of "''abcdef''"] t [of "''12345''"] t [of "''1234567''"] m
    by simp
qed

section \<open>Ratings\<close>



section \<open>\<open>RecentOrder\<close> and \<open>Order\<close>\<close>

text \<open>
  Claim C9. The fields of \<open>RecentOrder\<close> are the fields of \<open>Order\<close> without \<open>customerId\<close>
  and \<open>customerName\<close>, each with the same name, alias, type, constraints and default. So
  whenever an \<open>Order\<close> is constructed from \<open>m\<close>, a \<open>RecentOrder\<close> is constructed from \<open>m\<close>
  without the keys \<open>customerId\<close> and \<open>customerName\<close>, and it agrees with the \<open>Order\<close> on
  every shared field; and whenever a \<open>RecentOrder\<close> is constructed from \<open>m\<close>, an \<open>Order\<close>
  is constructed from \<open>m\<close> with \<open>customerId\<close> and \<open>customerName\<close> set to any strings, and
  agrees with the \<open>RecentOrder\<close> on every shared field.
\<close>

theorem recent_order_parallel:
  "fields_of RecentOrder =
     filter (\<lambda>f. fname f \<notin> {''customerId'', ''customerName''}) (fields_of Order)
   \<and> (\<forall>x. construct L Order m = Inr x \<longrightarrow>
        (\<exists>y. construct L RecentOrder (AList.delete ''customerId'' (AList.delete ''customerName'' m))
               = Inr y
           \<and> (\<forall>f \<in> set (fields_of RecentOrder). attr y (fname f) = attr x (fname f))))
   \<and> (\<forall>y a b. construct L RecentOrder m = Inr y \<longrightarrow>
        (\<exists>x. construct L Order
                (AList.update ''customerId'' (RStr a) (AList.update ''customerName'' (RStr b) m))
               = Inr x
           \<and> (\<forall>f \<in> set (fields_of RecentOrder). attr x (fname f) = attr y (fname f))))"
proof -
  let ?R = "fields_of RecentOrder" and ?O = "fields_of Order"
  have s: "?R = filter (\<lambda>f. fname f \<notin> {''customerId'', ''customerName''}) ?O"
    by (simp add: RecentOrder_def Order_def fields_of_def)
  have O: "Order = TModel ''Order'' ?O" by (simp add: Order_def fields_of_def)
  have R: "RecentOrder = TModel ''RecentOrder'' ?R" by (simp add: RecentOrder_def fields_of_def)
  have dO: "distinct (map fname ?O)" by (simp add: Order_def fields_of_def)
  have dR: "distinct (map fname ?R)" by (simp add: RecentOrder_def fields_of_def)
  define T where "T = tl ?R"
  have split: "?O = Field ''orderId'' (Some ''orderId'') (TStr None None) Required
        # Field ''customerId'' (Some ''customerId'') (TStr None None) Required
        # Field ''customerName'' (Some ''customerName'') (TStr None None) Required # T"
      "?R = Field ''orderId'' (Some ''orderId'') (TStr None None) Required # T"
    by (simp_all add: T_def Order_def RecentOrder_def fields_of_def)
  have sub: "f \<in> set ?O" if "f \<in> set ?R" for f
    using that split by (simp only: set_simps insert_iff) blast
  have keys: "fwire f \<noteq> ''customerId'' \<and> fwire f \<noteq> ''customerName''" if "f \<in> set ?R" for f
    using that by (auto simp: RecentOrder_def fields_of_def fwire_def wire_def)
  have 1: "\<exists>y. construct L RecentOrder (AList.delete ''customerId'' (AList.delete ''customerName'' m))
               = Inr y
           \<and> (\<forall>f \<in> set ?R. attr y (fname f) = attr x (fname f))"
    if "construct L Order m = Inr x" for x
  proof -
    let ?m = "AList.delete ''customerId'' (AList.delete ''customerName'' m)"
    have a: "map_of ?m (fwire f) = map_of m (fwire f)" if "f \<in> set ?R" for f
      using keys [OF that] by (simp add: delete_conv')
    from that have "construct L (TModel ''Order'' ?O) m = Inr x" using O by simp
    from construct_transfer [OF this dO dR, of ?m "''RecentOrder''"] a sub
    show ?thesis using R by auto
  qed
  have 2: "\<exists>x. construct L Order
                (AList.update ''customerId'' (RStr a) (AList.update ''customerName'' (RStr b) m))
               = Inr x
           \<and> (\<forall>f \<in> set ?R. attr x (fname f) = attr y (fname f))"
    if "construct L RecentOrder m = Inr y" for y a b
  proof -
    let ?m = "AList.update ''customerId'' (RStr a) (AList.update ''customerName'' (RStr b) m)"
    have a: "map_of ?m (fwire f) = map_of m (fwire f)" if "f \<in> set ?R" for f
      using keys [OF that] by (simp add: update_conv')
    have b: "(f \<in> set ?R \<and> map_of ?m (fwire f) = map_of m (fwire f)) \<or>
             (\<exists>v. validate_field L f ?m = Inr v)" if "f \<in> set ?O" for f
    proof (cases "f \<in> set ?R")
      case True
      then show ?thesis using a by simp
    next
      case False
      with that split have "f = Field ''customerId'' (Some ''customerId'') (TStr None None) Required
          \<or> f = Field ''customerName'' (Some ''customerName'') (TStr None None) Required"
        by (simp only: set_simps insert_iff) blast
      then show ?thesis
        by (auto simp: update_conv' wire_def leaf_def str_validator_def below_def above_def)
    qed
    from that have "construct L (TModel ''RecentOrder'' ?R) m = Inr y" using R by simp
    from construct_transfer [OF this dR dO, of ?m "''Order''"] a b sub
    show ?thesis using O by auto
  qed
  from s 1 2 show ?thesis by blast
qed

theorem recent_order_parallel_witness:
  "construct no_conversion RecentOrder
      (AList.delete ''customerId'' (AList.delete ''customerName'' sample_order))
     = construct no_conversion RecentOrder sample_order
   \<and> \<not> isl (construct no_conversion RecentOrder sample_order)
   \<and> attr (projr (construct no_conversion RecentOrder sample_order)) ''orderId''
     = attr (projr (construct no_conversion Order sample_order)) ''orderId''"
proof -
  have "\<not> isl (construct no_conversion Order sample_order)" by code_simp
  then obtain x where x: "construct no_conversion Order sample_order = Inr x"
    by (cases "construct no_conversion Order sample_order") auto
  with recent_order_parallel [where m = sample_order and L = no_conversion]
  obtain y where "construct no_conversion RecentOrder
      (AList.delete ''customerId'' (AList.delete ''customerName'' sample_order)) = Inr y"
    by blast
  moreover have "construct no_conversion RecentOrder
      (AList.delete ''customerId'' (AList.delete ''customerName'' sample_order))
     = construct no_conversion RecentOrder sample_order"
    by code_simp
  moreover have "attr (projr (construct no_conversion RecentOrder sample_order)) ''orderId''
     = attr (projr (construct no_conversion Order sample_order)) ''orderId''"
    by code_simp
  ultimately show ?thesis by simp
qed

section \<open>Unknown keys\<close>

text \<open>
  Claim C10. For every record type of the schema, every raw mapping \<open>m\<close> from which
  construction succeeds and every key \<open>k\<close> that is neither the name nor the alias of a
  declared field, construction from \<open>m\<close> with \<open>k\<close> bound to any value succeeds too and
  gives the same instance: the extra key is ignored.
\<close>

theorem unknown_key_ignored:
  assumes "C \<in> set models"
    and "\<forall>f \<in> set (fields_of C). k \<noteq> fname f \<and> falias f \<noteq> Some k"
    and "construct L C m = Inr x"
  shows "construct L C (AList.update k v m) = Inr x"
proof -
  from assms(1) obtain c fs where C: "C = TModel c fs"
    using models_classes by blast
  have "construct L (TModel c fs) (AList.update k v m) = construct L (TModel c fs) m"
  proof (rule construct_agree)
    fix f assume "f \<in> set fs"
    then have "fwire f \<noteq> k" using assms(2) fwire_neq by (simp add: C fields_of_def)
    then show "map_of (AList.update k v m) (fwire f) = map_of m (fwire f)"
      by (simp add: update_conv')
  qed
  then show ?thesis using assms(3) by (simp add: C)
qed

theorem unknown_key_ignored_witness:
  "construct no_conversion Order (AList.update ''note'' (RInt 7) sample_order)
     = construct no_conversion Order sample_order
   \<and> \<not> isl (construct no_conversion Order sample_order)"
proof -
  have 1: "Order \<in> set models" by (simp add: models_def)
  have 2: "\<forall>f \<in> set (fields_of Order). ''note'' \<noteq> fname f \<and> falias f \<noteq> Some ''note''"
    by (simp add: Order_def fields_of_def)
  have 3: "\<not> isl (construct no_conversion Order sample_order)" by code_simp
  then obtain x where 4: "construct no_conversion Order sample_order = Inr x"
    by (cases "construct no_conversion Order sample_order") auto
  from unknown_key_ignored [OF 1 2 4] 3 4 show ?thesis by simp
qed

end
